theory Spec2Isabelle
  imports Main "HOL-Library.Log_Nat" "HOL-Library.Sublist" "HOL-Library.Multiset" "HOL-Library.Word"
begin

section \<open>JavaScript numbers\<close>

text \<open>
  A JavaScript \<^verbatim>\<open>number\<close> is an IEEE 754 binary64 value. The finite values are
  carried as the rationals they denote; \<open>+0\<close> and \<open>-0\<close> are one value \<open>Num 0\<close>
  (they compare equal, and the divisors the page uses are the literals \<open>100\<close> and
  \<open>10\<close> and a price \<open>price_cents / 100\<close>, none of which is \<open>-0\<close>).
  Every arithmetic operation computes the exact result and rounds it to the nearest
  binary64 value, ties to the even significand (\<open>fl\<close>), with gradual underflow below
  \<open>2 powi -1022\<close> and overflow to an infinity from \<open>2 powi 1024\<close> on.
\<close>

datatype number = Num rat | PInf | NInf | NaN

definition pow2 :: "int \<Rightarrow> rat" where
  "pow2 e = 2 powi e"

text \<open>\<open>expo a\<close> is the binary exponent of a positive rational: \<open>pow2 (expo a) \<le> a < pow2 (expo a + 1)\<close>.\<close>

definition expo :: "rat \<Rightarrow> int" where
  "expo a = (let (p, q) = quotient_of a; n = bitlen p - bitlen q
             in if pow2 n \<le> a then n else n - 1)"

text \<open>Rounding a rational to the nearest integer, a tie going to the even neighbour.\<close>

definition rne :: "rat \<Rightarrow> int" where
  "rne x = (let f = \<lfloor>x\<rfloor>; d = x - of_int f
            in if d < 1 / 2 then f else if 1 / 2 < d then f + 1
               else if even f then f else f + 1)"

definition fl :: "rat \<Rightarrow> number" where
  "fl x = (if x = 0 then Num 0
           else let e = max (expo \<bar>x\<bar>) (- 1022);
                    q = pow2 (e - 52);
                    y = of_int (rne (x / q)) * q
                in if pow2 1024 \<le> y then PInf
                   else if y \<le> - pow2 1024 then NInf
                   else Num y)"

fun fsub :: "number \<Rightarrow> number \<Rightarrow> number" where
  "fsub (Num a) (Num b) = fl (a - b)"
| "fsub NaN _ = NaN"
| "fsub _ NaN = NaN"
| "fsub PInf PInf = NaN"
| "fsub NInf NInf = NaN"
| "fsub PInf _ = PInf"
| "fsub NInf _ = NInf"
| "fsub (Num a) PInf = NInf"
| "fsub (Num a) NInf = PInf"

fun fmul :: "number \<Rightarrow> number \<Rightarrow> number" where
  "fmul (Num a) (Num b) = fl (a * b)"
| "fmul NaN _ = NaN"
| "fmul _ NaN = NaN"
| "fmul PInf (Num b) = (if b = 0 then NaN else if 0 < b then PInf else NInf)"
| "fmul NInf (Num b) = (if b = 0 then NaN else if 0 < b then NInf else PInf)"
| "fmul (Num a) PInf = (if a = 0 then NaN else if 0 < a then PInf else NInf)"
| "fmul (Num a) NInf = (if a = 0 then NaN else if 0 < a then NInf else PInf)"
| "fmul PInf PInf = PInf"
| "fmul NInf NInf = PInf"
| "fmul PInf NInf = NInf"
| "fmul NInf PInf = NInf"

fun fdiv :: "number \<Rightarrow> number \<Rightarrow> number" where
  "fdiv (Num a) (Num b) =
     (if b = 0 then (if a = 0 then NaN else if 0 < a then PInf else NInf)
      else fl (a / b))"
| "fdiv NaN _ = NaN"
| "fdiv _ NaN = NaN"
| "fdiv (Num a) PInf = Num 0"
| "fdiv (Num a) NInf = Num 0"
| "fdiv PInf (Num b) = (if 0 \<le> b then PInf else NInf)"
| "fdiv NInf (Num b) = (if 0 \<le> b then NInf else PInf)"
| "fdiv PInf PInf = NaN"
| "fdiv PInf NInf = NaN"
| "fdiv NInf PInf = NaN"
| "fdiv NInf NInf = NaN"

text \<open>\<^verbatim>\<open>a <= b\<close> on numbers: false as soon as one side is \<open>NaN\<close>.\<close>

fun js_le :: "number \<Rightarrow> number \<Rightarrow> bool" where
  "js_le NaN _ = False"
| "js_le _ NaN = False"
| "js_le NInf _ = True"
| "js_le _ PInf = True"
| "js_le PInf _ = False"
| "js_le _ NInf = False"
| "js_le (Num a) (Num b) = (a \<le> b)"

text \<open>
  \<^verbatim>\<open>Math.round\<close>: the integer closest to the argument, a tie going towards
  \<open>+\<infinity>\<close>. The result is exact: below \<open>2 ^ 52\<close> in magnitude every integer is a
  binary64 value, and from there on every binary64 value is an integer already.
\<close>

fun Math_round :: "number \<Rightarrow> number" where
  "Math_round (Num x) = Num (of_int \<lfloor>x + 1 / 2\<rfloor>)"
| "Math_round v = v"

text \<open>The sign test a sort applies to what its comparator returns (\<open>NaN\<close> counts as \<open>0\<close>).\<close>

fun is_pos :: "number \<Rightarrow> bool" where
  "is_pos (Num x) = (0 < x)"
| "is_pos PInf = True"
| "is_pos _ = False"

text \<open>
  \<^verbatim>\<open>Array.prototype.sort(cmp)\<close> is stable (ECMAScript 2019 and later). For a
  consistent comparator the stable sorted arrangement is unique, so it is computed here
  by insertion: an element moves past exactly the elements the comparator places
  strictly before it.
\<close>

fun insert_by :: "('a \<Rightarrow> 'a \<Rightarrow> number) \<Rightarrow> 'a \<Rightarrow> 'a list \<Rightarrow> 'a list" where
  "insert_by cmp x [] = [x]"
| "insert_by cmp x (y # ys) =
     (if is_pos (cmp x y) then y # insert_by cmp x ys else x # y # ys)"

definition Array_sort :: "('a \<Rightarrow> 'a \<Rightarrow> number) \<Rightarrow> 'a list \<Rightarrow> 'a list" where
  "Array_sort cmp xs = foldr (insert_by cmp) xs []"

section \<open>Data model of \<^verbatim>\<open>src/app/page.tsx\<close>\<close>

text \<open>
  The fields \<^verbatim>\<open>id\<close> of the three row types are named \<open>sub_id\<close>, \<open>st_id\<close> and
  \<open>var_id\<close>, and \<^verbatim>\<open>name\<close> is \<open>st_name\<close>. \<^verbatim>\<open>price_cents\<close> is an integer column, so
  an \<open>int\<close>; a column that may be \<^verbatim>\<open>null\<close> is an \<open>option\<close>.
\<close>

datatype Mode = ModeBest | ModeRegular | ModeSale

datatype PriceType = Regular | Sale

record Store =
  st_id :: string
  st_name :: string
  sort_order :: int

text \<open>
  The texts the search filter works on are JavaScript strings, sequences of UTF-16 code
  units. The identifiers, time stamps and dates are kept as \<open>string\<close>: the page only
  compares them, or hands them to \<^verbatim>\<open>Date\<close>.
\<close>

type_synonym ustring = "16 word list"

record Variant =
  var_id :: string
  product_name :: ustring
  brand_name :: ustring
  size_value :: "number option"
  size_unit :: "ustring option"
  flavour :: "ustring option"

record Submission =
  sub_id :: string
  store_id :: string
  variant_id :: string
  price_cents :: int
  price_type :: PriceType
  sale_end_date :: "string option"
  created_at :: string

text \<open>One entry of the \<^verbatim>\<open>latest\<close> index: \<^verbatim>\<open>{ regular?: Submission; sale?: Submission }\<close>.\<close>

record Slot =
  regular :: "Submission option"
  sale :: "Submission option"

text \<open>
  The index is a \<^verbatim>\<open>Record<string, Record<string, Slot>>\<close>, a map of maps. Its keys are
  database identifiers; a key that names a property of \<^verbatim>\<open>Object.prototype\<close> (such as
  \<^verbatim>\<open>constructor\<close>) is outside this model.
\<close>

type_synonym LatestMap = "string \<rightharpoonup> (string \<rightharpoonup> Slot)"

text \<open>What \<^verbatim>\<open>getDisplayPrice\<close> returns when it is not the empty object \<^verbatim>\<open>{}\<close>.\<close>

record Cell =
  price :: number
  isSale :: bool
  cell_created_at :: string

text \<open>An element of the array \<^verbatim>\<open>vals\<close> of \<^verbatim>\<open>getCheapestInfo\<close>, and its result.\<close>

record Val =
  storeId :: string
  val_price :: number

record CheapestInfo =
  cheapestStoreId :: "string option"
  savePct :: "number option"

text \<open>
  The host the page runs on: the clock, and the two local-time operations of \<^verbatim>\<open>Date\<close>
  the page uses. \<open>Date_now\<close> is the time value of \<^verbatim>\<open>new Date()\<close>, \<open>setHours0 t\<close>
  the time value after \<^verbatim>\<open>setHours(0, 0, 0, 0)\<close> on a date with time value \<open>t\<close>, and
  \<open>Date_parse s\<close> the time value of \<^verbatim>\<open>new Date(s)\<close>, \<open>None\<close> for an invalid date.
\<close>

record Host =
  Date_now :: int
  setHours0 :: "int \<Rightarrow> int"
  Date_parse :: "string \<Rightarrow> int option"

section \<open>The search filter\<close>

text \<open>
  \<^verbatim>\<open>String.prototype.trim\<close> removes the code units of the productions WhiteSpace and
  LineTerminator from both ends: tab, line feed, vertical tab, form feed, carriage return,
  space, no-break space, U+1680, U+2000 to U+200A, U+2028, U+2029, U+202F, U+205F, U+3000
  and U+FEFF. All of them are single code units.
\<close>

definition is_white_space :: "16 word \<Rightarrow> bool" where
  "is_white_space c =
     (c \<in> {0x0009, 0x000A, 0x000B, 0x000C, 0x000D, 0x0020, 0x00A0, 0x1680,
            0x2028, 0x2029, 0x202F, 0x205F, 0x3000, 0xFEFF}
      \<or> (0x2000 \<le> c \<and> c \<le> 0x200A))"

definition trim :: "ustring \<Rightarrow> ustring" where
  "trim s = rev (dropWhile is_white_space (rev (dropWhile is_white_space s)))"

text \<open>\<^verbatim>\<open>label.includes(q)\<close>: \<open>q\<close> occurs in \<open>label\<close> at some position.\<close>

fun str_includes :: "ustring \<Rightarrow> ustring \<Rightarrow> bool" where
  "str_includes [] q = (q = [])"
| "str_includes (c # s) q = (prefix q (c # s) \<or> str_includes s q)"

text \<open>
  The template literal of the filter. \<open>toLowerCase\<close> is the host's
  \<^verbatim>\<open>String.prototype.toLowerCase\<close> (the case conversion of the Unicode standard) and
  \<open>toStr\<close> the host's conversion of a number to a string; \<^verbatim>\<open>x ?? ""\<close> is the empty
  string for an absent field, and \<open>0x20\<close> is the space of the template.
\<close>

definition label :: "(ustring \<Rightarrow> ustring) \<Rightarrow> (number \<Rightarrow> ustring) \<Rightarrow> Variant \<Rightarrow> ustring" where
  "label toLowerCase toStr v =
     toLowerCase
       (brand_name v @ [0x20] @ product_name v @ [0x20]
        @ (case size_value v of None \<Rightarrow> [] | Some n \<Rightarrow> toStr n)
        @ (case size_unit v of None \<Rightarrow> [] | Some u \<Rightarrow> u)
        @ [0x20]
        @ (case flavour v of None \<Rightarrow> [] | Some f \<Rightarrow> f))"

definition filteredVariants ::
  "(ustring \<Rightarrow> ustring) \<Rightarrow> (number \<Rightarrow> ustring) \<Rightarrow> ustring \<Rightarrow> Variant list \<Rightarrow> Variant list" where
  "filteredVariants toLowerCase toStr query variants =
     (let q = toLowerCase (trim query)
      in if q = [] then variants
         else filter (\<lambda>v. str_includes (label toLowerCase toStr v) q) variants)"

section \<open>The index of latest submissions\<close>

text \<open>
  One turn of the loop of \<^verbatim>\<open>latest\<close>. A submission whose \<^verbatim>\<open>variant_id\<close> is falsy
  (the empty string) is skipped; \<^verbatim>\<open>||=\<close> creates an entry only where none exists; a
  slot is set only while it is empty.
\<close>

definition latest_step :: "Submission \<Rightarrow> LatestMap \<Rightarrow> LatestMap" where
  "latest_step s m =
     (if variant_id s = [] then m
      else let inner = (case m (variant_id s) of None \<Rightarrow> Map.empty | Some i \<Rightarrow> i);
               slot = (case inner (store_id s) of
                         None \<Rightarrow> \<lparr>regular = None, sale = None\<rparr>
                       | Some sl \<Rightarrow> sl);
               slot1 = (if price_type s = Regular \<and> regular slot = None
                        then slot\<lparr>regular := Some s\<rparr> else slot);
               slot2 = (if price_type s = Sale \<and> sale slot1 = None
                        then slot1\<lparr>sale := Some s\<rparr> else slot1)
           in m(variant_id s \<mapsto> inner(store_id s \<mapsto> slot2)))"

fun latest_loop :: "LatestMap \<Rightarrow> Submission list \<Rightarrow> LatestMap" where
  "latest_loop m [] = m"
| "latest_loop m (s # ss) = latest_loop (latest_step s m) ss"

definition latest :: "Submission list \<Rightarrow> LatestMap" where
  "latest submissions = latest_loop Map.empty submissions"

section \<open>Sale validity and the displayed price\<close>

text \<open>
  A falsy \<^verbatim>\<open>sale_end_date\<close> is \<^verbatim>\<open>null\<close> or the empty string. The comparison
  \<^verbatim>\<open>end >= today\<close> is on time values and is false for an invalid date.
\<close>

definition isSaleStillValid :: "Host \<Rightarrow> Submission option \<Rightarrow> bool" where
  "isSaleStillValid h sl =
     (case sl of
        None \<Rightarrow> False
      | Some s \<Rightarrow>
          (case sale_end_date s of
             None \<Rightarrow> True
           | Some d \<Rightarrow>
               if d = [] then True
               else (let today = setHours0 h (Date_now h)
                     in (case Date_parse h (d @ ''T00:00:00'') of
                           None \<Rightarrow> False
                         | Some end_t \<Rightarrow> (today \<le> end_t)))))"

text \<open>\<^verbatim>\<open>price_cents / 100\<close>.\<close>

definition dollars :: "int \<Rightarrow> number" where
  "dollars c = fdiv (Num (of_int c)) (Num 100)"

definition lookup_slot :: "LatestMap \<Rightarrow> string \<Rightarrow> string \<Rightarrow> Slot option" where
  "lookup_slot m variantId store =
     (case m variantId of None \<Rightarrow> None | Some inner \<Rightarrow> inner store)"

text \<open>
  The two object literals \<^verbatim>\<open>getDisplayPrice\<close> returns: the price of a regular
  submission with \<^verbatim>\<open>isSale: false\<close>, the price of a sale submission with
  \<^verbatim>\<open>isSale: true\<close>.
\<close>

definition regular_cell :: "Submission \<Rightarrow> Cell" where
  "regular_cell r =
     \<lparr>price = dollars (price_cents r), isSale = False, cell_created_at = created_at r\<rparr>"

definition sale_cell :: "Submission \<Rightarrow> Cell" where
  "sale_cell s =
     \<lparr>price = dollars (price_cents s), isSale = True, cell_created_at = created_at s\<rparr>"

text \<open>
  \<open>None\<close> is the empty object \<^verbatim>\<open>{}\<close>. \<open>regular_c\<close> carries the variable
  \<^verbatim>\<open>regular\<close> of the source (the price of \<^verbatim>\<open>slot.regular\<close>, when there is one)
  together with the answer built from it, and \<open>sale_c\<close> the variable \<^verbatim>\<open>sale\<close>
  (the price of \<^verbatim>\<open>slot.sale\<close>, when there is one and \<^verbatim>\<open>saleOk\<close> holds).
\<close>

definition getDisplayPrice :: "Host \<Rightarrow> LatestMap \<Rightarrow> Mode \<Rightarrow> string \<Rightarrow> string \<Rightarrow> Cell option" where
  "getDisplayPrice h m mode variantId store =
     (case lookup_slot m variantId store of
        None \<Rightarrow> None
      | Some slot \<Rightarrow>
          (let regular_c = (case regular slot of None \<Rightarrow> None | Some r \<Rightarrow> Some (regular_cell r));
               saleOk = isSaleStillValid h (sale slot);
               sale_c = (case sale slot of
                           None \<Rightarrow> None
                         | Some s \<Rightarrow> (if saleOk then Some (sale_cell s) else None))
           in (case mode of
                 ModeRegular \<Rightarrow> regular_c
               | ModeSale \<Rightarrow> sale_c
               | ModeBest \<Rightarrow>
                   (case (sale_c, regular_c) of
                      (Some sc, Some rc) \<Rightarrow>
                        (if js_le (price sc) (price rc) then Some sc else Some rc)
                    | (Some sc, None) \<Rightarrow> Some sc
                    | (None, Some rc) \<Rightarrow> Some rc
                    | (None, None) \<Rightarrow> None))))"

section \<open>Ranking a row\<close>

text \<open>The loop that fills \<^verbatim>\<open>vals\<close>: one element for every store with a price, in store order.\<close>

fun collect_vals :: "(string \<Rightarrow> Cell option) \<Rightarrow> Store list \<Rightarrow> Val list" where
  "collect_vals cell_of [] = []"
| "collect_vals cell_of (s # ss) =
     (case cell_of (st_id s) of
        None \<Rightarrow> collect_vals cell_of ss
      | Some c \<Rightarrow> \<lparr>storeId = st_id s, val_price = price c\<rparr> # collect_vals cell_of ss)"

definition by_price :: "Val \<Rightarrow> Val \<Rightarrow> number" where
  "by_price a b = fsub (val_price a) (val_price b)"

definition save_pct :: "number \<Rightarrow> number \<Rightarrow> number" where
  "save_pct cheapest second =
     (let pct = fmul (fdiv (fsub second cheapest) second) (Num 100)
      in fdiv (Math_round (fmul pct (Num 10))) (Num 10))"

definition getCheapestInfo :: "Host \<Rightarrow> LatestMap \<Rightarrow> Mode \<Rightarrow> Store list \<Rightarrow> string \<Rightarrow> CheapestInfo" where
  "getCheapestInfo h m mode stores variantId =
     (case Array_sort by_price (collect_vals (getDisplayPrice h m mode variantId) stores) of
        [] \<Rightarrow> \<lparr>cheapestStoreId = None, savePct = None\<rparr>
      | [cheapest] \<Rightarrow> \<lparr>cheapestStoreId = Some (storeId cheapest), savePct = None\<rparr>
      | cheapest # second # _ \<Rightarrow>
          \<lparr>cheapestStoreId = Some (storeId cheapest),
           savePct = Some (save_pct (val_price cheapest) (val_price second))\<rparr>)"

fun hasAnyPrice_loop :: "(string \<Rightarrow> Cell option) \<Rightarrow> Store list \<Rightarrow> bool" where
  "hasAnyPrice_loop cell_of [] = False"
| "hasAnyPrice_loop cell_of (s # ss) =
     (case cell_of (st_id s) of
        None \<Rightarrow> hasAnyPrice_loop cell_of ss
      | Some c \<Rightarrow> True)"

definition hasAnyPrice :: "Host \<Rightarrow> LatestMap \<Rightarrow> Mode \<Rightarrow> Store list \<Rightarrow> string \<Rightarrow> bool" where
  "hasAnyPrice h m mode stores variantId =
     hasAnyPrice_loop (getDisplayPrice h m mode variantId) stores"

section \<open>Notions used in the statements\<close>

text \<open>
  \<open>for_pair v st s\<close>: the submission \<open>s\<close> is indexed under the pair \<open>(v, st)\<close>: it
  has a variant, and its variant and store are \<open>v\<close> and \<open>st\<close>. \<open>first_of v st t feed\<close>
  is the first submission of type \<open>t\<close> for the pair in feed order, and
  \<open>newest_first key feed\<close> says the feed is ordered by \<^verbatim>\<open>created_at\<close>, newest first,
  where \<open>key\<close> reads a time stamp as a point of a linear order.
\<close>

definition for_pair :: "string \<Rightarrow> string \<Rightarrow> Submission \<Rightarrow> bool" where
  "for_pair v st s = (variant_id s \<noteq> [] \<and> variant_id s = v \<and> store_id s = st)"

definition first_of :: "string \<Rightarrow> string \<Rightarrow> PriceType \<Rightarrow> Submission list \<Rightarrow> Submission option" where
  "first_of v st t ss = find (\<lambda>s. for_pair v st s \<and> price_type s = t) ss"

definition slot_of :: "PriceType \<Rightarrow> Slot \<Rightarrow> Submission option" where
  "slot_of t slot = (case t of Regular \<Rightarrow> regular slot | Sale \<Rightarrow> sale slot)"

definition newest_first :: "(string \<Rightarrow> 'k::linorder) \<Rightarrow> Submission list \<Rightarrow> bool" where
  "newest_first key feed = sorted_wrt (\<lambda>a b. key (created_at b) \<le> key (created_at a)) feed"

text \<open>
  What one turn of the loop does to the slot of a pair, and the loop seen from one pair.
\<close>

definition fill_slot :: "Submission \<Rightarrow> Slot \<Rightarrow> Slot" where
  "fill_slot s slot =
     (let slot1 = (if price_type s = Regular \<and> regular slot = None
                   then slot\<lparr>regular := Some s\<rparr> else slot)
      in if price_type s = Sale \<and> sale slot1 = None
         then slot1\<lparr>sale := Some s\<rparr> else slot1)"

definition slot_or_empty :: "Slot option \<Rightarrow> Slot" where
  "slot_or_empty so = (case so of None \<Rightarrow> \<lparr>regular = None, sale = None\<rparr> | Some sl \<Rightarrow> sl)"

definition keep_or :: "Submission option \<Rightarrow> Submission option \<Rightarrow> Submission option" where
  "keep_or old new = (case old of Some r \<Rightarrow> Some r | None \<Rightarrow> new)"

fun scan :: "string \<Rightarrow> string \<Rightarrow> Slot option \<Rightarrow> Submission list \<Rightarrow> Slot option" where
  "scan v st so [] = so"
| "scan v st so (s # ss) =
     scan v st (if for_pair v st s
                then Some (fill_slot s (slot_or_empty so)) else so) ss"

text \<open>
  The savings percentage as the specification words it: the exact quotient, rounded
  to one decimal place, a half going away from zero.
\<close>

definition round1_half_away :: "rat \<Rightarrow> rat" where
  "round1_half_away x =
     (if 0 \<le> x then of_int \<lfloor>x * 10 + 1 / 2\<rfloor> / 10 else - (of_int \<lfloor>- x * 10 + 1 / 2\<rfloor> / 10))"

definition spec_savePct :: "rat \<Rightarrow> rat \<Rightarrow> rat" where
  "spec_savePct lowest secondLowest = round1_half_away ((secondLowest - lowest) / secondLowest * 100)"

text \<open>
  Sample data: a feed for variant \<open>v\<close> at store \<open>A\<close> (one row has no variant), a host in
  UTC whose clock reads \<open>now\<close> and that knows the first instants of 10 and 11 March
  2024, stores, a variant with its label parts, and three feeds of regular prices.
\<close>

definition demo_sub :: "string \<Rightarrow> string \<Rightarrow> int \<Rightarrow> PriceType \<Rightarrow> string option \<Rightarrow> string \<Rightarrow> Submission" where
  "demo_sub st v c t e ts =
     \<lparr>sub_id = ts, store_id = st, variant_id = v, price_cents = c, price_type = t,
      sale_end_date = e, created_at = ts\<rparr>"

definition demo_key :: "string \<Rightarrow> nat" where
  "demo_key ts = (if ts = ''t4'' then 4 else if ts = ''t3'' then 3 else if ts = ''t2'' then 2
                  else if ts = ''t1'' then 1 else 0)"

definition demo_feed :: "Submission list" where
  "demo_feed =
     [demo_sub ''A'' ''v'' 1000 Regular None ''t4'',
      demo_sub ''A'' ''v'' 1000 Sale (Some ''2024-03-10'') ''t3'',
      demo_sub ''A'' ''v'' 1100 Regular None ''t2'',
      demo_sub ''A'' [] 900 Regular None ''t2'',
      demo_sub ''A'' ''v'' 1200 Regular None ''t1'']"

definition pair_feed :: "int \<Rightarrow> int \<Rightarrow> Submission list" where
  "pair_feed r s =
     [demo_sub ''A'' ''v'' r Regular None ''t4'',
      demo_sub ''A'' ''v'' s Sale (Some ''2024-03-10'') ''t3'']"

definition demo_host :: "int \<Rightarrow> Host" where
  "demo_host now =
     \<lparr>Date_now = now,
      setHours0 = (\<lambda>t. t - t mod 86400000),
      Date_parse = (\<lambda>s. if s = ''2024-03-10T00:00:00'' then Some 1710028800000
                         else if s = ''2024-03-11T00:00:00'' then Some 1710115200000
                         else None)\<rparr>"

definition demo_stores :: "Store list" where
  "demo_stores =
     [\<lparr>st_id = ''A'', st_name = ''Store A'', sort_order = 1\<rparr>,
      \<lparr>st_id = ''B'', st_name = ''Store B'', sort_order = 2\<rparr>]"

text \<open>
  \<open>units\<close> writes a text of ASCII characters as code units. \<open>demo_lower\<close> lower-cases
  the code units below U+0100 as the Unicode standard does (\<open>A\<close> to \<open>Z\<close>, and U+00C0 to
  U+00DE without the multiplication sign U+00D7) and leaves the others alone.
\<close>

definition units :: "string \<Rightarrow> ustring" where
  "units s = map (\<lambda>c. of_nat (of_char c)) s"

definition demo_lower :: "ustring \<Rightarrow> ustring" where
  "demo_lower s =
     map (\<lambda>c. if (0x41 \<le> c \<and> c \<le> 0x5A) \<or> (0xC0 \<le> c \<and> c \<le> 0xDE \<and> c \<noteq> 0xD7)
              then c + 0x20 else c) s"

definition demo_variant :: Variant where
  "demo_variant =
     \<lparr>var_id = ''v'', product_name = units ''Grape Juice'', brand_name = units ''Kedem'',
      size_value = Some (Num (3 / 2)), size_unit = Some (units ''L''),
      flavour = Some (units ''Concord'')\<rparr>"

definition creme_variant :: Variant where
  "creme_variant =
     \<lparr>var_id = ''c'', product_name = units ''Biscuits'', brand_name = units ''Gefen'',
      size_value = None, size_unit = None,
      flavour = Some (units ''cr'' @ [0xE8] @ units ''me'')\<rparr>"

definition demo_toStr :: "number \<Rightarrow> ustring" where
  "demo_toStr n = (if n = Num (3 / 2) then units ''1.5'' else units ''?'')"

definition price_row :: "string \<Rightarrow> int \<Rightarrow> Submission" where
  "price_row st c = demo_sub st ''v'' c Regular None ''t1''"

definition three_stores :: "Store list" where
  "three_stores =
     [\<lparr>st_id = ''A'', st_name = ''Store A'', sort_order = 1\<rparr>,
      \<lparr>st_id = ''B'', st_name = ''Store B'', sort_order = 2\<rparr>,
      \<lparr>st_id = ''C'', st_name = ''Store C'', sort_order = 3\<rparr>]"

definition rank_feed :: "Submission list" where
  "rank_feed = [price_row ''A'' 800, price_row ''B'' 1000, price_row ''C'' 1200]"

definition tie_feed :: "Submission list" where
  "tie_feed = [price_row ''A'' 1000, price_row ''B'' 800, price_row ''C'' 800]"

definition half_feed :: "Submission list" where
  "half_feed = [price_row ''A'' 975, price_row ''B'' 2000]"

lemmas demo_defs = demo_sub_def demo_key_def demo_feed_def demo_host_def

lemmas rank_defs = rank_feed_def tie_feed_def half_feed_def price_row_def demo_sub_def
  three_stores_def demo_stores_def

section \<open>Rounding to binary64\<close>

subsection \<open>Powers of two and the binary exponent\<close>

lemma pow2_pos: "0 < pow2 e"
  by (simp add: pow2_def)

lemma pow2_add: "pow2 (a + b) = pow2 a * pow2 b"
  by (simp add: pow2_def power_int_add)

lemma pow2_diff: "pow2 (a - b) = pow2 a / pow2 b"
  by (simp add: pow2_def power_int_diff)

lemma pow2_mono: "a \<le> b \<Longrightarrow> pow2 a \<le> pow2 b"
  by (simp add: pow2_def power_int_increasing)

lemma pow2_strict_mono: "a < b \<Longrightarrow> pow2 a < pow2 b"
  by (simp add: pow2_def power_int_strict_increasing)

lemma pow2_less_cancel: "pow2 a < pow2 b \<Longrightarrow> a < b"
  using pow2_mono[of b a] by (cases "a < b") auto

lemma pow2_nat: "0 \<le> e \<Longrightarrow> pow2 e = of_int (2 ^ nat e)"
  by (simp add: pow2_def power_int_def)

lemma pow2_0: "pow2 0 = 1"
  by (simp add: pow2_def)

lemma pow2_1: "pow2 1 = 2"
  by (simp add: pow2_def)

lemma pow2_m1: "pow2 (- 1) = 1 / 2"
  by (simp add: pow2_def power_int_minus_divide)

lemma pow2_numeral: "pow2 (numeral k) = 2 ^ numeral k"
  by (simp add: pow2_def)

lemma pow2_neg_numeral: "pow2 (- numeral k) = 1 / 2 ^ numeral k"
  by (simp add: pow2_def power_int_minus_divide)

lemmas pow2_eval = pow2_numeral pow2_neg_numeral pow2_0 pow2_1 pow2_m1

lemma bitlen_rat_bounds:
  assumes "0 < p"
  shows "pow2 (bitlen p - 1) \<le> of_int p" "of_int p < pow2 (bitlen p)"
proof -
  from bitlen_bounds[OF assms] have b: "2 ^ nat (bitlen p - 1) \<le> p" "p < 2 ^ nat (bitlen p)"
    by auto
  have ge1: "1 \<le> bitlen p"
    using assms by (simp add: bitlen_alt_def)
  have "pow2 (bitlen p - 1) = of_int (2 ^ nat (bitlen p - 1))"
    using ge1 by (simp add: pow2_nat)
  also have "\<dots> \<le> of_int p"
    using b(1) by (simp only: of_int_le_iff)
  finally show "pow2 (bitlen p - 1) \<le> of_int p" .
  have "(of_int p :: rat) < of_int (2 ^ nat (bitlen p))"
    using b(2) by (simp only: of_int_less_iff)
  also have "\<dots> = pow2 (bitlen p)"
    using ge1 by (simp add: pow2_nat)
  finally show "of_int p < pow2 (bitlen p)" .
qed

lemma expo_bounds:
  assumes "0 < a"
  shows "pow2 (expo a) \<le> a \<and> a < pow2 (expo a + 1)"
proof -
  obtain p q where pq: "quotient_of a = (p, q)" by (cases "quotient_of a")
  then have q: "0 < q" and a: "a = of_int p / of_int q"
    by (auto simp: quotient_of_denom_pos quotient_of_div)
  from assms a q have p: "0 < p"
    by (simp add: zero_less_divide_iff)
  define n where "n = bitlen p - bitlen q"
  have up: "a < pow2 (n + 1)"
  proof -
    have "of_int p < pow2 (bitlen p)" using p by (rule bitlen_rat_bounds)
    also have "pow2 (bitlen p) = pow2 (n + 1) * pow2 (bitlen q - 1)"
      by (simp add: n_def flip: pow2_add)
    also have "\<dots> \<le> pow2 (n + 1) * of_int q"
      using bitlen_rat_bounds(1)[OF q] pow2_pos[of "n + 1"] by simp
    finally show ?thesis using q by (simp add: a pos_divide_less_eq)
  qed
  have lo: "pow2 (n - 1) \<le> a"
  proof -
    have "pow2 (n - 1) * of_int q \<le> pow2 (n - 1) * pow2 (bitlen q)"
      using bitlen_rat_bounds(2)[OF q] pow2_pos[of "n - 1"] by simp
    also have "\<dots> = pow2 (bitlen p - 1)"
      by (simp add: n_def flip: pow2_add)
    also have "\<dots> \<le> of_int p" using p by (rule bitlen_rat_bounds)
    finally show ?thesis using q by (simp add: a pos_le_divide_eq)
  qed
  have e: "expo a = (if pow2 n \<le> a then n else n - 1)"
    by (simp add: expo_def pq n_def Let_def)
  show ?thesis
  proof (cases "pow2 n \<le> a")
    case True
    with e up show ?thesis by simp
  next
    case False
    with e lo show ?thesis by simp
  qed
qed

lemma expo_unique:
  assumes "pow2 e \<le> a" "a < pow2 (e + 1)"
  shows "expo a = e"
proof -
  have "0 < a" using assms(1) pow2_pos[of e] by simp
  from expo_bounds[OF this] have b: "pow2 (expo a) \<le> a" "a < pow2 (expo a + 1)" by auto
  have "pow2 (expo a) < pow2 (e + 1)" using b(1) assms(2) by simp
  then have "expo a < e + 1" by (rule pow2_less_cancel)
  moreover have "pow2 e < pow2 (expo a + 1)" using b(2) assms(1) by simp
  then have "e < expo a + 1" by (rule pow2_less_cancel)
  ultimately show ?thesis by simp
qed

subsection \<open>Rounding to the nearest integer\<close>

lemma rne_cases: "rne x = \<lfloor>x\<rfloor> \<or> rne x = \<lfloor>x\<rfloor> + 1"
  by (simp add: rne_def Let_def)

lemma rne_of_int: "rne (of_int n) = n"
  by (simp add: rne_def Let_def)

lemma rne_le: "x \<le> of_int N \<Longrightarrow> rne x \<le> N"
proof (cases "x = of_int N")
  case True
  then show ?thesis by (simp add: rne_of_int)
next
  case False
  assume "x \<le> of_int N"
  with False have "x < of_int N" by simp
  then have "\<lfloor>x\<rfloor> < N" by (simp add: floor_less_iff)
  with rne_cases[of x] show ?thesis by auto
qed

lemma rne_ge: "of_int N \<le> x \<Longrightarrow> N \<le> rne x"
proof -
  assume "of_int N \<le> x"
  then have "N \<le> \<lfloor>x\<rfloor>" by (simp add: le_floor_iff)
  with rne_cases[of x] show ?thesis by auto
qed

lemma rne_eqI:
  assumes "of_int n - 1 / 2 < x" "x < of_int n + 1 / 2"
  shows "rne x = n"
proof (cases "of_int n \<le> x")
  case True
  with assms have "\<lfloor>x\<rfloor> = n" by (simp add: floor_eq_iff)
  moreover from assms(2) have "x - of_int n < 1 / 2" by simp
  ultimately show ?thesis by (simp add: rne_def Let_def)
next
  case False
  with assms have f: "\<lfloor>x\<rfloor> = n - 1" by (simp add: floor_eq_iff)
  from assms(1) have "1 / 2 < x - of_int (n - 1)" by simp
  with f show ?thesis by (simp add: rne_def Let_def)
qed

subsection \<open>Sign, grid and bounds of a rounded value\<close>

lemma fl_0: "fl 0 = Num 0"
  by (simp add: fl_def)

lemma fl_not_NaN: "fl x \<noteq> NaN"
  by (simp add: fl_def Let_def)

lemma range_fl_not_NaN: "a \<in> range fl \<Longrightarrow> a \<noteq> NaN"
  using fl_not_NaN by auto

lemma fl_cases:
  assumes "x \<noteq> 0"
  obtains e m where "e = max (expo \<bar>x\<bar>) (- 1022)" "m = rne (x / pow2 (e - 52))"
    "fl x = (if pow2 1024 \<le> of_int m * pow2 (e - 52) then PInf
             else if of_int m * pow2 (e - 52) \<le> - pow2 1024 then NInf
             else Num (of_int m * pow2 (e - 52)))"
  using assms by (simp add: fl_def Let_def)

lemma fl_nonpos:
  assumes "x \<le> 0"
  shows "\<not> is_pos (fl x)"
proof (cases "x = 0")
  case True
  then show ?thesis by (simp add: fl_0)
next
  case False
  then obtain e m where em: "m = rne (x / pow2 (e - 52))"
    "fl x = (if pow2 1024 \<le> of_int m * pow2 (e - 52) then PInf
             else if of_int m * pow2 (e - 52) \<le> - pow2 1024 then NInf
             else Num (of_int m * pow2 (e - 52)))"
    by (rule fl_cases)
  have "x / pow2 (e - 52) \<le> of_int 0"
    using assms pow2_pos[of "e - 52"] by (simp add: divide_le_0_iff)
  then have "m \<le> 0" unfolding em(1) by (rule rne_le)
  then have y: "of_int m * pow2 (e - 52) \<le> 0"
    using pow2_pos[of "e - 52"] by (simp add: mult_le_0_iff)
  then have "\<not> pow2 1024 \<le> of_int m * pow2 (e - 52)"
    using pow2_pos[of 1024] by simp
  with y show ?thesis using em(2) by simp
qed

lemma fl_pos:
  assumes "pow2 (- 1074) \<le> x"
  shows "is_pos (fl x)"
proof -
  have x: "0 < x" using assms pow2_pos[of "- 1074"] by simp
  then have "x \<noteq> 0" by simp
  then obtain e m where em: "e = max (expo \<bar>x\<bar>) (- 1022)" "m = rne (x / pow2 (e - 52))"
    "fl x = (if pow2 1024 \<le> of_int m * pow2 (e - 52) then PInf
             else if of_int m * pow2 (e - 52) \<le> - pow2 1024 then NInf
             else Num (of_int m * pow2 (e - 52)))"
    by (rule fl_cases)
  have q: "pow2 (e - 52) \<le> x"
  proof (cases "- 1022 \<le> expo x")
    case True
    with x em(1) have "e = expo x" by simp
    then have "pow2 (e - 52) \<le> pow2 (expo x)" by (simp add: pow2_mono)
    also have "\<dots> \<le> x" using expo_bounds[OF x] by simp
    finally show ?thesis .
  next
    case False
    with x em(1) have "e = - 1022" by simp
    with assms show ?thesis by simp
  qed
  then have "of_int 1 \<le> x / pow2 (e - 52)"
    using pow2_pos[of "e - 52"] by (simp add: pos_le_divide_eq)
  then have "1 \<le> m" unfolding em(2) by (rule rne_ge)
  then have "0 < of_int m * pow2 (e - 52)"
    using pow2_pos[of "e - 52"] by simp
  moreover from this have "\<not> of_int m * pow2 (e - 52) \<le> - pow2 1024"
    using pow2_pos[of 1024] by simp
  ultimately show ?thesis using em(3) by simp
qed

lemma fl_grid:
  assumes "fl x = Num y"
  shows "\<exists>k::int. y = of_int k * pow2 (- 1074)"
proof (cases "x = 0")
  case True
  with assms have "y = of_int 0 * pow2 (- 1074)" by (simp add: fl_0)
  then show ?thesis by blast
next
  case False
  then obtain e m where em: "e = max (expo \<bar>x\<bar>) (- 1022)" "m = rne (x / pow2 (e - 52))"
    "fl x = (if pow2 1024 \<le> of_int m * pow2 (e - 52) then PInf
             else if of_int m * pow2 (e - 52) \<le> - pow2 1024 then NInf
             else Num (of_int m * pow2 (e - 52)))"
    by (rule fl_cases)
  from em(3) assms have y: "y = of_int m * pow2 (e - 52)"
    by (simp split: if_splits)
  have e: "0 \<le> e + 1022" using em(1) by simp
  have "pow2 (e - 52) = pow2 ((e + 1022) + (- 1074))" by simp
  also have "\<dots> = pow2 (e + 1022) * pow2 (- 1074)" by (rule pow2_add)
  also have "pow2 (e + 1022) = of_int (2 ^ nat (e + 1022))" using e by (rule pow2_nat)
  finally have "y = of_int (m * 2 ^ nat (e + 1022)) * pow2 (- 1074)"
    using y by simp
  then show ?thesis by blast
qed

lemma fl_le_pow2:
  assumes "0 \<le> x" "x \<le> pow2 k" "- 1022 \<le> k" "k \<le> 1023"
  shows "\<exists>y. fl x = Num y \<and> 0 \<le> y \<and> y \<le> pow2 k"
proof (cases "x = 0")
  case True
  then show ?thesis using pow2_pos[of k] by (simp add: fl_0)
next
  case False
  with assms(1) have x: "0 < x" by simp
  from False obtain e m where em: "e = max (expo \<bar>x\<bar>) (- 1022)" "m = rne (x / pow2 (e - 52))"
    "fl x = (if pow2 1024 \<le> of_int m * pow2 (e - 52) then PInf
             else if of_int m * pow2 (e - 52) \<le> - pow2 1024 then NInf
             else Num (of_int m * pow2 (e - 52)))"
    by (rule fl_cases)
  have "pow2 (expo x) \<le> x" using expo_bounds[OF x] by simp
  also have "x < pow2 (k + 1)" using assms(2) pow2_strict_mono[of k "k + 1"] by simp
  finally have "expo x < k + 1" by (rule pow2_less_cancel)
  with x em(1) assms(3) have ek: "e \<le> k" by simp
  have "of_int 0 \<le> x / pow2 (e - 52)"
    using assms(1) pow2_pos[of "e - 52"] by simp
  then have m0: "0 \<le> m" unfolding em(2) by (rule rne_ge)
  have "x / pow2 (e - 52) \<le> pow2 k / pow2 (e - 52)"
    using assms(2) pow2_pos[of "e - 52"] by (simp add: divide_right_mono)
  also have "\<dots> = pow2 (k - e + 52)"
    by (simp flip: pow2_diff) (simp add: algebra_simps)
  also have "\<dots> = of_int (2 ^ nat (k - e + 52))"
    using ek by (simp add: pow2_nat)
  finally have "m \<le> 2 ^ nat (k - e + 52)" unfolding em(2) by (rule rne_le)
  then have "(of_int m :: rat) \<le> of_int (2 ^ nat (k - e + 52))"
    by (simp only: of_int_le_iff)
  also have "\<dots> = pow2 (k - e + 52)"
    using ek by (simp add: pow2_nat)
  finally have "of_int m * pow2 (e - 52) \<le> pow2 (k - e + 52) * pow2 (e - 52)"
    using pow2_pos[of "e - 52"] by (simp add: mult_right_mono)
  also have "\<dots> = pow2 k"
    by (simp flip: pow2_add)
  finally have yk: "of_int m * pow2 (e - 52) \<le> pow2 k" .
  have y0: "0 \<le> of_int m * pow2 (e - 52)"
    using m0 pow2_pos[of "e - 52"] by simp
  have "pow2 k < pow2 1024" using assms(4) by (simp add: pow2_strict_mono)
  with yk have "\<not> pow2 1024 \<le> of_int m * pow2 (e - 52)" by simp
  moreover have "\<not> of_int m * pow2 (e - 52) \<le> - pow2 1024"
    using y0 pow2_pos[of 1024] by simp
  ultimately show ?thesis using em(3) y0 yk by simp
qed

lemma fl_ge_pow2:
  assumes "pow2 k \<le> x" "- 1074 \<le> k"
  shows "fl x = PInf \<or> (\<exists>y. fl x = Num y \<and> pow2 k \<le> y)"
proof -
  have x: "0 < x" using assms(1) pow2_pos[of k] by simp
  then have "x \<noteq> 0" by simp
  then obtain e m where em: "e = max (expo \<bar>x\<bar>) (- 1022)" "m = rne (x / pow2 (e - 52))"
    "fl x = (if pow2 1024 \<le> of_int m * pow2 (e - 52) then PInf
             else if of_int m * pow2 (e - 52) \<le> - pow2 1024 then NInf
             else Num (of_int m * pow2 (e - 52)))"
    by (rule fl_cases)
  have aux: "pow2 j \<le> of_int m * pow2 (e - 52)" if j: "pow2 j \<le> x" "e - 52 \<le> j" for j
  proof -
    have "of_int (2 ^ nat (j - e + 52)) = pow2 (j - e + 52)"
      using j(2) by (simp add: pow2_nat)
    also have "\<dots> = pow2 j / pow2 (e - 52)"
      by (simp flip: pow2_diff) (simp add: algebra_simps)
    also have "\<dots> \<le> x / pow2 (e - 52)"
      using j(1) pow2_pos[of "e - 52"] by (simp add: divide_right_mono)
    finally have "2 ^ nat (j - e + 52) \<le> m" unfolding em(2) by (rule rne_ge)
    then have "(of_int (2 ^ nat (j - e + 52)) :: rat) \<le> of_int m"
      by (simp only: of_int_le_iff)
    then have "pow2 (j - e + 52) \<le> of_int m"
      using j(2) by (simp add: pow2_nat)
    then have "pow2 (j - e + 52) * pow2 (e - 52) \<le> of_int m * pow2 (e - 52)"
      using pow2_pos[of "e - 52"] by (simp add: mult_right_mono)
    then show ?thesis by (simp flip: pow2_add)
  qed
  have "pow2 k \<le> x" by (rule assms(1))
  also have "x < pow2 (expo x + 1)" using expo_bounds[OF x] by simp
  finally have kx: "k < expo x + 1" by (rule pow2_less_cancel)
  have yk: "pow2 k \<le> of_int m * pow2 (e - 52)"
  proof (cases "- 1022 \<le> expo x")
    case True
    with x em(1) have e: "e = expo x" by simp
    have "pow2 e \<le> x" unfolding e using expo_bounds[OF x] by simp
    then have "pow2 e \<le> of_int m * pow2 (e - 52)" by (rule aux) simp
    moreover have "pow2 k \<le> pow2 e" using kx e by (simp add: pow2_mono)
    ultimately show ?thesis by simp
  next
    case False
    with x em(1) have "e = - 1022" by simp
    with assms(2) have "e - 52 \<le> k" by simp
    with assms(1) show ?thesis by (rule aux)
  qed
  then have "\<not> of_int m * pow2 (e - 52) \<le> - pow2 1024"
    using pow2_pos[of 1024] pow2_pos[of k] by simp
  with yk show ?thesis using em(3) by simp
qed

subsection \<open>Computing a rounded value\<close>

text \<open>
  \<open>fl x\<close> for a given \<open>x\<close> is found from its exponent \<open>e\<close> and the integer \<open>n\<close>
  nearest to \<open>x\<close> scaled by \<open>2 powi (52 - e)\<close>.
\<close>

lemma fl_eval:
  assumes "pow2 e \<le> \<bar>x\<bar>" "\<bar>x\<bar> < pow2 (e + 1)" "- 1022 \<le> e" "e \<le> 1022"
    and "of_int n - 1 / 2 < x / pow2 (e - 52)" "x / pow2 (e - 52) < of_int n + 1 / 2"
  shows "fl x = Num (of_int n * pow2 (e - 52))"
proof -
  have x0: "x \<noteq> 0" using assms(1) pow2_pos[of e] by auto
  have ex: "expo \<bar>x\<bar> = e" using assms(1,2) by (rule expo_unique)
  have me: "max (expo \<bar>x\<bar>) (- 1022) = e" using ex assms(3) by simp
  have n: "rne (x / pow2 (e - 52)) = n" using assms(5,6) by (rule rne_eqI)
  have q: "0 < pow2 (e - 52)" by (rule pow2_pos)
  have p53: "pow2 (e + 1) = of_int (2 ^ 53) * pow2 (e - 52)"
  proof -
    have "e + 1 = 53 + (e - 52)" by simp
    then have "pow2 (e + 1) = pow2 (53 + (e - 52))" by (rule arg_cong)
    also have "\<dots> = pow2 53 * pow2 (e - 52)" by (rule pow2_add)
    finally show ?thesis by (simp add: pow2_nat)
  qed
  have a: "\<bar>x\<bar> / pow2 (e - 52) < of_int (2 ^ 53)"
    using assms(2) q by (simp add: p53 pos_divide_less_eq)
  have "x / pow2 (e - 52) \<le> \<bar>x\<bar> / pow2 (e - 52)"
    using q by (simp add: divide_right_mono)
  moreover have "- (x / pow2 (e - 52)) \<le> \<bar>x\<bar> / pow2 (e - 52)"
  proof -
    have "(- x) / pow2 (e - 52) \<le> \<bar>x\<bar> / pow2 (e - 52)"
      using q by (intro divide_right_mono) simp_all
    then show ?thesis by simp
  qed
  ultimately have "x / pow2 (e - 52) < of_int (2 ^ 53)" "- of_int (2 ^ 53) < x / pow2 (e - 52)"
    using a by linarith+
  with assms(5,6) have "(of_int n :: rat) < of_int (2 ^ 53) + 1 / 2" "- of_int (2 ^ 53) - 1 / 2 < (of_int n :: rat)"
    by simp_all
  then have "(of_int n :: rat) < of_int (2 ^ 53 + 1)" "of_int (- (2 ^ 53) - 1) < (of_int n :: rat)"
    by simp_all
  then have "n < 2 ^ 53 + 1" "- (2 ^ 53) - 1 < n"
    by (simp_all only: of_int_less_iff)
  then have "\<bar>n\<bar> \<le> 2 ^ 53" by simp
  then have "\<bar>of_int n :: rat\<bar> \<le> of_int (2 ^ 53)"
    by (simp only: of_int_le_iff flip: of_int_abs)
  then have "\<bar>of_int n * pow2 (e - 52)\<bar> \<le> of_int (2 ^ 53) * pow2 (e - 52)"
    using q by (simp add: abs_mult mult_right_mono)
  also have "\<dots> = pow2 (e + 1)" by (simp only: p53)
  also have "\<dots> < pow2 1024" using assms(4) by (simp add: pow2_strict_mono)
  finally have "\<bar>of_int n * pow2 (e - 52)\<bar> < pow2 1024" .
  then have "\<not> pow2 1024 \<le> of_int n * pow2 (e - 52)" "\<not> of_int n * pow2 (e - 52) \<le> - pow2 1024"
    by (simp_all add: abs_less_iff)
  then show ?thesis
    using x0 by (simp add: fl_def Let_def me n)
qed

lemma Math_round_eval:
  assumes "of_int n - 1 / 2 \<le> x" "x < of_int n + 1 / 2"
  shows "Math_round (Num x) = Num (of_int n)"
proof -
  have "\<lfloor>x + 1 / 2\<rfloor> = n"
    using assms by (intro floor_unique) simp_all
  then show ?thesis by simp
qed

subsection \<open>The comparator of the sort agrees with the order of the prices\<close>

lemma js_le_refl: "x \<noteq> NaN \<Longrightarrow> js_le x x"
  by (cases x) simp_all

lemma js_le_total: "a \<noteq> NaN \<Longrightarrow> b \<noteq> NaN \<Longrightarrow> js_le a b \<or> js_le b a"
  by (cases a; cases b) auto

lemma js_le_trans: "js_le a b \<Longrightarrow> js_le b c \<Longrightarrow> js_le a c"
  by (cases a; cases b; cases c) auto

lemma js_le_antisym: "js_le a b \<Longrightarrow> js_le b a \<Longrightarrow> a = b"
  by (cases a; cases b) auto

lemma fsub_pos_iff:
  assumes "a \<in> range fl" "b \<in> range fl"
  shows "is_pos (fsub a b) \<longleftrightarrow> \<not> js_le a b"
proof -
  from assms obtain u w where a: "a = fl u" and b: "b = fl w" by auto
  have na: "a \<noteq> NaN" and nb: "b \<noteq> NaN" by (simp_all add: a b fl_not_NaN)
  show ?thesis
  proof (cases a)
    case (Num x)
    note ax = this
    show ?thesis
    proof (cases b)
      case (Num y)
      from fl_grid[of u x] a ax obtain k1 :: int where k1: "x = of_int k1 * pow2 (- 1074)" by auto
      from fl_grid[of w y] b Num obtain k2 :: int where k2: "y = of_int k2 * pow2 (- 1074)" by auto
      show ?thesis
      proof (cases "x \<le> y")
        case True
        then have "\<not> is_pos (fl (x - y))" by (simp add: fl_nonpos)
        with True ax Num show ?thesis by simp
      next
        case False
        then have "of_int k2 * pow2 (- 1074) < of_int k1 * pow2 (- 1074)"
          by (simp add: k1 k2)
        then have "(of_int k2 :: rat) < of_int k1"
          using pow2_pos[of "- 1074"] by (simp only: mult_less_cancel_right_pos)
        then have "k2 + 1 \<le> k1" by simp
        then have "(of_int (k2 + 1) :: rat) \<le> of_int k1" by (simp only: of_int_le_iff)
        then have "of_int (k2 + 1) * pow2 (- 1074) \<le> of_int k1 * pow2 (- 1074)"
          using pow2_pos[of "- 1074"] by (simp only: mult_le_cancel_right_pos)
        then have "pow2 (- 1074) \<le> x - y"
          by (simp add: k1 k2 algebra_simps)
        then have "is_pos (fl (x - y))" by (rule fl_pos)
        with False ax Num show ?thesis by simp
      qed
    qed (use ax nb in simp_all)
  qed (use na nb in \<open>cases b; simp\<close>)+
qed

lemma dollars_range: "dollars c \<in> range fl"
  by (simp add: dollars_def)

lemma dollars_not_NaN: "dollars c \<noteq> NaN"
  by (simp add: dollars_def fl_not_NaN)

lemma by_price_pos_iff:
  assumes "val_price a \<in> range fl" "val_price b \<in> range fl"
  shows "is_pos (by_price a b) \<longleftrightarrow> \<not> js_le (val_price a) (val_price b)"
  unfolding by_price_def using assms by (rule fsub_pos_iff)

subsection \<open>The price of a number of cents\<close>

lemma rne_error: "\<bar>of_int (rne x) - x\<bar> \<le> 1 / 2"
proof -
  have f: "of_int \<lfloor>x\<rfloor> \<le> x" "x < of_int \<lfloor>x\<rfloor> + 1" by linarith+
  show ?thesis
    using f by (auto simp: rne_def Let_def abs_le_iff)
qed

lemma fl_error:
  assumes "pow2 (- 1022) \<le> x" "x \<le> pow2 1023"
  shows "\<exists>y. fl x = Num y \<and> \<bar>y - x\<bar> \<le> x / 2 ^ 53"
proof -
  have x: "0 < x" using assms(1) pow2_pos[of "- 1022"] by simp
  then have "x \<noteq> 0" by simp
  then obtain e m where em: "e = max (expo \<bar>x\<bar>) (- 1022)" "m = rne (x / pow2 (e - 52))"
    "fl x = (if pow2 1024 \<le> of_int m * pow2 (e - 52) then PInf
             else if of_int m * pow2 (e - 52) \<le> - pow2 1024 then NInf
             else Num (of_int m * pow2 (e - 52)))"
    by (rule fl_cases)
  have "pow2 (- 1022) < pow2 (expo x + 1)"
    using assms(1) expo_bounds[OF x] by simp
  then have "- 1022 < expo x + 1" by (rule pow2_less_cancel)
  with x em(1) have e: "e = expo x" by simp
  from fl_le_pow2[of x 1023] x assms(2) obtain y where y: "fl x = Num y" by auto
  with em(3) have ym: "y = of_int m * pow2 (e - 52)" by (simp split: if_splits)
  have q: "0 < pow2 (e - 52)" by (rule pow2_pos)
  have "\<bar>y - x\<bar> = \<bar>of_int m - x / pow2 (e - 52)\<bar> * pow2 (e - 52)"
  proof -
    have "y - x = (of_int m - x / pow2 (e - 52)) * pow2 (e - 52)"
      using q by (simp add: ym field_simps)
    then show ?thesis using q by (simp add: abs_mult)
  qed
  also have "\<dots> \<le> 1 / 2 * pow2 (e - 52)"
    using rne_error[of "x / pow2 (e - 52)"] q unfolding em(2) by (intro mult_right_mono) simp_all
  also have "\<dots> = pow2 e / 2 ^ 53"
  proof -
    have "pow2 e = pow2 (52 + (e - 52))" by simp
    also have "\<dots> = pow2 52 * pow2 (e - 52)" by (rule pow2_add)
    finally show ?thesis by (simp add: pow2_eval)
  qed
  also have "\<dots> \<le> x / 2 ^ 53"
    using expo_bounds[OF x] e by (simp add: divide_right_mono)
  finally show ?thesis using y by blast
qed

lemma dollars_error:
  assumes "0 < c" "c < 2 ^ 52"
  shows "\<exists>p. dollars c = Num p \<and> \<bar>p - of_int c / 100\<bar> < 1 / 200"
proof -
  let ?x = "of_int c / 100 :: rat"
  have c1: "(1::rat) \<le> of_int c" using assms(1) by simp
  have "(of_int c :: rat) < of_int (2 ^ 52)" using assms(2) by (simp only: of_int_less_iff)
  then have c2: "(of_int c :: rat) < 2 ^ 52" by simp
  have lo: "pow2 (- 1022) \<le> ?x"
  proof -
    have "pow2 (- 1022) \<le> pow2 (- 7)" by (simp add: pow2_mono)
    also have "\<dots> \<le> ?x" using c1 by (simp add: pow2_eval)
    finally show ?thesis .
  qed
  have hi: "?x \<le> pow2 1023"
  proof -
    have "?x \<le> pow2 46" using c2 by (simp add: pow2_eval)
    also have "\<dots> \<le> pow2 1023" by (simp add: pow2_mono)
    finally show ?thesis .
  qed
  from fl_error[OF lo hi] obtain y where y: "fl ?x = Num y" "\<bar>y - ?x\<bar> \<le> ?x / 2 ^ 53" by blast
  have "?x / 2 ^ 53 < 1 / 200" using c2 by simp
  with y show ?thesis by (auto simp: dollars_def)
qed

lemma dollars_le_iff:
  assumes "0 < a" "a < 2 ^ 52" "0 < b" "b < 2 ^ 52"
  shows "js_le (dollars a) (dollars b) \<longleftrightarrow> a \<le> b"
proof -
  from dollars_error[OF assms(1,2)] obtain p where p: "dollars a = Num p" "\<bar>p - of_int a / 100\<bar> < 1 / 200"
    by blast
  from dollars_error[OF assms(3,4)] obtain q where q: "dollars b = Num q" "\<bar>q - of_int b / 100\<bar> < 1 / 200"
    by blast
  show ?thesis
  proof (cases a b rule: linorder_cases)
    case less
    then have "a + 1 \<le> b" by simp
    then have "(of_int (a + 1) :: rat) \<le> of_int b" by (simp only: of_int_le_iff)
    then have "(of_int a :: rat) / 100 + 1 / 100 \<le> of_int b / 100" by simp
    with p(2) q(2) have "p < q" by linarith
    with less show ?thesis by (simp add: p q)
  next
    case equal
    then show ?thesis by (simp add: js_le_refl dollars_not_NaN)
  next
    case greater
    then have "b + 1 \<le> a" by simp
    then have "(of_int (b + 1) :: rat) \<le> of_int a" by (simp only: of_int_le_iff)
    then have "(of_int b :: rat) / 100 + 1 / 100 \<le> of_int a / 100" by simp
    with p(2) q(2) have "q < p" by linarith
    with greater show ?thesis by (simp add: p q)
  qed
qed

subsection \<open>The prices of the sample feeds\<close>

lemma dollars_800: "dollars 800 = Num 8"
  using fl_eval[of 3 "800 / 100" 4503599627370496]
  by (simp add: dollars_def pow2_eval)

lemma dollars_1000: "dollars 1000 = Num 10"
  using fl_eval[of 3 "1000 / 100" 5629499534213120]
  by (simp add: dollars_def pow2_eval)

lemma dollars_1200: "dollars 1200 = Num 12"
  using fl_eval[of 3 "1200 / 100" 6755399441055744]
  by (simp add: dollars_def pow2_eval)

lemma dollars_975: "dollars 975 = Num (39 / 4)"
  using fl_eval[of 3 "975 / 100" 5488762045857792]
  by (simp add: dollars_def pow2_eval)

lemma dollars_2000: "dollars 2000 = Num 20"
  using fl_eval[of 4 "2000 / 100" 5629499534213120]
  by (simp add: dollars_def pow2_eval)

lemma fl_9: "fl 9 = Num 9"
  using fl_eval[of 3 9 5066549580791808] by (simp add: pow2_eval)

lemma fl_10: "fl 10 = Num 10"
  using fl_eval[of 3 10 5629499534213120] by (simp add: pow2_eval)

lemma fl_11: "fl 11 = Num 11"
  using fl_eval[of 3 11 6192449487634432] by (simp add: pow2_eval)

section \<open>The index holds the first submission of each type\<close>

lemma lookup_latest_step:
  "lookup_slot (latest_step s m) v st =
     (if for_pair v st s
      then Some (fill_slot s (slot_or_empty (lookup_slot m v st)))
      else lookup_slot m v st)"
  by (auto simp: lookup_slot_def latest_step_def fill_slot_def for_pair_def slot_or_empty_def Let_def
           split: option.splits)

lemma lookup_latest_loop:
  "lookup_slot (latest_loop m ss) v st = scan v st (lookup_slot m v st) ss"
  by (induction ss arbitrary: m) (simp_all add: lookup_latest_step)

lemma first_of_Cons:
  "first_of v st t (s # ss) =
     (if for_pair v st s \<and> price_type s = t then Some s else first_of v st t ss)"
  by (simp add: first_of_def)

lemma first_of_Nil: "first_of v st t [] = None"
  by (simp add: first_of_def)

lemma first_of_None: "\<forall>x\<in>set ss. \<not> for_pair v st x \<Longrightarrow> first_of v st t ss = None"
  by (induction ss) (simp_all add: first_of_def)

lemma first_of_in_set: "first_of v st t feed = Some r \<Longrightarrow> r \<in> set feed"
  by (induction feed) (auto simp: first_of_Cons first_of_Nil split: if_splits)

lemma scan_closed:
  "scan v st so ss =
     (if \<exists>s\<in>set ss. for_pair v st s
      then Some \<lparr>regular = keep_or (regular (slot_or_empty so)) (first_of v st Regular ss),
                 sale = keep_or (sale (slot_or_empty so)) (first_of v st Sale ss)\<rparr>
      else so)"
proof (induction ss arbitrary: so)
  case Nil
  then show ?case by simp
next
  case (Cons s ss)
  show ?case
  proof (cases "for_pair v st s")
    case False
    then show ?thesis by (simp add: Cons first_of_Cons)
  next
    case True
    then show ?thesis
      by (cases "price_type s"; cases so)
         (auto simp: Cons first_of_Cons first_of_None fill_slot_def slot_or_empty_def keep_or_def Let_def
            split: option.splits)
  qed
qed

lemma lookup_latest:
  "lookup_slot (latest feed) v st =
     (if \<exists>s\<in>set feed. for_pair v st s
      then Some \<lparr>regular = first_of v st Regular feed, sale = first_of v st Sale feed\<rparr>
      else None)"
proof -
  have "lookup_slot Map.empty v st = None"
    by (simp add: lookup_slot_def)
  then show ?thesis
    by (simp add: latest_def lookup_latest_loop scan_closed slot_or_empty_def keep_or_def)
qed

lemma first_of_max:
  fixes key :: "string \<Rightarrow> 'k::linorder"
  shows "newest_first key feed \<Longrightarrow> first_of v st t feed = Some r \<Longrightarrow>
     r \<in> set feed \<and> for_pair v st r \<and> price_type r = t \<and>
     (\<forall>s\<in>set feed. for_pair v st s \<and> price_type s = t \<longrightarrow> key (created_at s) \<le> key (created_at r))"
proof (induction feed)
  case Nil
  then show ?case by (simp add: first_of_Nil)
next
  case (Cons a feed)
  show ?case
  proof (cases "for_pair v st a \<and> price_type a = t")
    case True
    with Cons.prems have "r = a" by (simp add: first_of_Cons)
    with True Cons.prems(1) show ?thesis by (auto simp: newest_first_def)
  next
    case False
    with Cons.prems have "first_of v st t feed = Some r" by (auto simp: first_of_Cons)
    moreover from Cons.prems(1) have "newest_first key feed" by (simp add: newest_first_def)
    ultimately show ?thesis using Cons.IH False by auto
  qed
qed

lemma scan_keeps:
  "slot_of t slot = Some r \<Longrightarrow> \<exists>slot'. scan v st (Some slot) ss = Some slot' \<and> slot_of t slot' = Some r"
  by (cases t) (auto simp: scan_closed slot_of_def slot_or_empty_def keep_or_def)

text \<open>
  Claim C1 (latest wins). For a feed ordered newest first, the index maps a pair
  \<open>(v, st)\<close> to a slot exactly when the feed has a submission for the pair; the
  \<open>regular\<close> part of the slot is the first regular submission for the pair in the feed
  and the \<open>sale\<close> part the first sale submission. Whatever a part holds is a
  submission of that type for the pair whose \<^verbatim>\<open>created_at\<close> is greatest among the
  same-type submissions for the pair. A part that is filled is still the same after any
  further run of the loop.
\<close>

theorem latest_wins:
  fixes key :: "string \<Rightarrow> 'k::linorder"
  assumes "newest_first key feed"
  shows "lookup_slot (latest feed) v st =
           (if \<exists>s\<in>set feed. for_pair v st s
            then Some \<lparr>regular = first_of v st Regular feed, sale = first_of v st Sale feed\<rparr>
            else None)
         \<and> (\<forall>slot t r. lookup_slot (latest feed) v st = Some slot \<and> slot_of t slot = Some r \<longrightarrow>
               r \<in> set feed \<and> for_pair v st r \<and> price_type r = t \<and>
               (\<forall>s\<in>set feed. for_pair v st s \<and> price_type s = t \<longrightarrow>
                  key (created_at s) \<le> key (created_at r)))
         \<and> (\<forall>m slot t r later. lookup_slot m v st = Some slot \<and> slot_of t slot = Some r \<longrightarrow>
               (\<exists>slot'. lookup_slot (latest_loop m later) v st = Some slot' \<and> slot_of t slot' = Some r))"
proof (intro conjI allI impI)
  show "lookup_slot (latest feed) v st =
           (if \<exists>s\<in>set feed. for_pair v st s
            then Some \<lparr>regular = first_of v st Regular feed, sale = first_of v st Sale feed\<rparr>
            else None)"
    by (rule lookup_latest)
next
  fix slot t r
  assume a: "lookup_slot (latest feed) v st = Some slot \<and> slot_of t slot = Some r"
  then have "first_of v st t feed = Some r"
    by (cases t) (auto simp: lookup_latest slot_of_def split: if_splits)
  from first_of_max[OF assms this]
  show "r \<in> set feed" "for_pair v st r" "price_type r = t"
    "\<forall>s\<in>set feed. for_pair v st s \<and> price_type s = t \<longrightarrow> key (created_at s) \<le> key (created_at r)"
    by auto
next
  fix m slot t r later
  assume "lookup_slot m v st = Some slot \<and> slot_of t slot = Some r"
  then show "\<exists>slot'. lookup_slot (latest_loop m later) v st = Some slot' \<and> slot_of t slot' = Some r"
    by (simp add: lookup_latest_loop scan_keeps)
qed

theorem latest_wins_witness:
  "newest_first demo_key demo_feed
   \<and> lookup_slot (latest demo_feed) ''v'' ''A'' =
       Some \<lparr>regular = Some (demo_sub ''A'' ''v'' 1000 Regular None ''t4''),
             sale = Some (demo_sub ''A'' ''v'' 1000 Sale (Some ''2024-03-10'') ''t3'')\<rparr>"
proof -
  have h: "newest_first demo_key demo_feed"
    by (simp add: newest_first_def demo_defs)
  from latest_wins[OF h, of "''v''" "''A''"] h show ?thesis
    by (simp add: first_of_def for_pair_def demo_defs)
qed

section \<open>Sale validity: the end date is the last valid day\<close>

text \<open>
  Claim C2 (sale validity boundary). An absent sale is not valid; a sale without end
  date is valid; a sale whose end date \<open>d\<close> parses to the instant \<open>e\<close> (the start of that
  day) is valid exactly when the start of today is not after \<open>e\<close>. So it is valid when
  today starts at \<open>e\<close> (the clock reads day \<open>d\<close>), and not valid when today is a later
  day \<open>d1\<close>, whose start \<open>e1\<close> is after \<open>e\<close>.
\<close>

theorem sale_validity_boundary:
  "\<not> isSaleStillValid h None
   \<and> (sale_end_date s = None \<longrightarrow> isSaleStillValid h (Some s))
   \<and> (sale_end_date s = Some d \<and> d \<noteq> [] \<and> Date_parse h (d @ ''T00:00:00'') = Some e \<longrightarrow>
        (isSaleStillValid h (Some s) \<longleftrightarrow> setHours0 h (Date_now h) \<le> e)
        \<and> (setHours0 h (Date_now h) = e \<longrightarrow> isSaleStillValid h (Some s))
        \<and> (\<forall>d1 e1. Date_parse h (d1 @ ''T00:00:00'') = Some e1 \<and> e < e1
               \<and> setHours0 h (Date_now h) = e1 \<longrightarrow> \<not> isSaleStillValid h (Some s)))"
  by (auto simp: isSaleStillValid_def Let_def)

theorem sale_validity_boundary_witness:
  "isSaleStillValid (demo_host 1710070000000)
      (Some (demo_sub ''A'' ''v'' 1000 Sale (Some ''2024-03-10'') ''t3''))
   \<and> \<not> isSaleStillValid (demo_host 1710120000000)
      (Some (demo_sub ''A'' ''v'' 1000 Sale (Some ''2024-03-10'') ''t3''))"
proof -
  let ?s = "demo_sub ''A'' ''v'' 1000 Sale (Some ''2024-03-10'') ''t3''"
  have d: "sale_end_date ?s = Some ''2024-03-10'' \<and> ''2024-03-10'' \<noteq> []
           \<and> Date_parse (demo_host now) (''2024-03-10'' @ ''T00:00:00'') = Some 1710028800000" for now
    by (simp add: demo_defs)
  have a: "setHours0 (demo_host 1710070000000) (Date_now (demo_host 1710070000000)) = 1710028800000"
    by (simp add: demo_defs)
  have b: "Date_parse (demo_host 1710120000000) (''2024-03-11'' @ ''T00:00:00'') = Some 1710115200000
           \<and> (1710028800000::int) < 1710115200000
           \<and> setHours0 (demo_host 1710120000000) (Date_now (demo_host 1710120000000)) = 1710115200000"
    by (simp add: demo_defs)
  from sale_validity_boundary[of "demo_host 1710070000000" ?s "''2024-03-10''" 1710028800000]
       sale_validity_boundary[of "demo_host 1710120000000" ?s "''2024-03-10''" 1710028800000]
       d a b
  show ?thesis by blast
qed

section \<open>The displayed price in each mode\<close>

lemma demo_lookup:
  "lookup_slot (latest demo_feed) ''v'' ''A'' =
       Some \<lparr>regular = Some (demo_sub ''A'' ''v'' 1000 Regular None ''t4''),
             sale = Some (demo_sub ''A'' ''v'' 1000 Sale (Some ''2024-03-10'') ''t3'')\<rparr>"
  by (simp add: lookup_latest first_of_def for_pair_def demo_defs)

lemma demo_sale_active:
  "isSaleStillValid (demo_host 1710070000000)
      (Some (demo_sub ''A'' ''v'' 1000 Sale (Some ''2024-03-10'') ''t3''))"
  by (simp add: isSaleStillValid_def demo_defs)

lemma demo_sale_expired:
  "\<not> isSaleStillValid (demo_host 1710120000000)
      (Some (demo_sub ''A'' ''v'' 1000 Sale (Some ''2024-03-10'') ''t3''))"
  by (simp add: isSaleStillValid_def demo_defs)

lemma pair_lookup:
  "lookup_slot (latest (pair_feed r s)) ''v'' ''A'' =
       Some \<lparr>regular = Some (demo_sub ''A'' ''v'' r Regular None ''t4''),
             sale = Some (demo_sub ''A'' ''v'' s Sale (Some ''2024-03-10'') ''t3'')\<rparr>"
  by (simp add: lookup_latest first_of_def for_pair_def pair_feed_def demo_sub_def)

lemma pair_sale_active:
  "isSaleStillValid (demo_host 1710070000000)
      (Some (demo_sub ''A'' ''v'' s Sale (Some ''2024-03-10'') ''t3''))"
  by (simp add: isSaleStillValid_def demo_defs)

lemma pair_sale_expired:
  "\<not> isSaleStillValid (demo_host 1710120000000)
      (Some (demo_sub ''A'' ''v'' s Sale (Some ''2024-03-10'') ''t3''))"
  by (simp add: isSaleStillValid_def demo_defs)

lemma getDisplayPrice_latest_regular:
  "getDisplayPrice h (latest feed) ModeRegular v st =
     (case first_of v st Regular feed of None \<Rightarrow> None | Some r \<Rightarrow> Some (regular_cell r))"
  by (auto simp: getDisplayPrice_def lookup_latest Let_def first_of_None split: option.splits)

lemma getDisplayPrice_dollars:
  "getDisplayPrice h m mode v st = Some c \<Longrightarrow> \<exists>n. price c = dollars n"
  by (auto simp: getDisplayPrice_def Let_def regular_cell_def sale_cell_def
           split: option.splits Mode.splits if_splits)

lemma getDisplayPrice_latest_cents:
  assumes "getDisplayPrice h (latest feed) mode v st = Some c"
  shows "\<exists>x\<in>set feed. price c = dollars (price_cents x)"
proof -
  from assms obtain slot where slot: "lookup_slot (latest feed) v st = Some slot"
    by (auto simp: getDisplayPrice_def split: option.splits)
  then have rs: "regular slot = first_of v st Regular feed" "sale slot = first_of v st Sale feed"
    by (auto simp: lookup_latest split: if_splits)
  from assms slot have "(\<exists>r. regular slot = Some r \<and> c = regular_cell r)
      \<or> (\<exists>s. sale slot = Some s \<and> c = sale_cell s)"
    by (auto simp: getDisplayPrice_def Let_def split: option.splits Mode.splits if_splits)
  then show ?thesis
    using rs first_of_in_set by (auto simp: regular_cell_def sale_cell_def)
qed

text \<open>
  Claim C3 (best mode). In mode \<^verbatim>\<open>best\<close>, with a regular submission \<open>r\<close> and a sale
  \<open>s\<close> that is still valid, the answer is the price \<^verbatim>\<open>price_cents / 100\<close> of \<open>s\<close> with
  \<open>isSale\<close> true and the time stamp of \<open>s\<close> when that price is \<open>\<le>\<close> the price of
  \<open>r\<close>, and the price of \<open>r\<close> with \<open>isSale\<close> false and the time stamp of \<open>r\<close>
  otherwise. Equal cents give the sale. For positive cents below \<open>2 ^ 52\<close> the
  comparison of the prices is the comparison of the cents: the sale is returned exactly
  when it costs no more cents than the regular price, so a dearer sale is never
  returned. With only one of the two available the answer is that one, and with neither
  it is empty.
\<close>

theorem best_mode_selection:
  assumes "lookup_slot m v st = Some slot"
  shows "(\<forall>r s. regular slot = Some r \<and> sale slot = Some s \<and> isSaleStillValid h (Some s) \<longrightarrow>
            getDisplayPrice h m ModeBest v st =
              (if js_le (fdiv (Num (of_int (price_cents s))) (Num 100))
                        (fdiv (Num (of_int (price_cents r))) (Num 100))
               then Some \<lparr>price = fdiv (Num (of_int (price_cents s))) (Num 100), isSale = True,
                          cell_created_at = created_at s\<rparr>
               else Some \<lparr>price = fdiv (Num (of_int (price_cents r))) (Num 100), isSale = False,
                          cell_created_at = created_at r\<rparr>)
            \<and> (price_cents s = price_cents r \<longrightarrow>
                 getDisplayPrice h m ModeBest v st =
                   Some \<lparr>price = fdiv (Num (of_int (price_cents s))) (Num 100), isSale = True,
                         cell_created_at = created_at s\<rparr>)
            \<and> (0 < price_cents s \<and> price_cents s < 2 ^ 52 \<and> 0 < price_cents r \<and> price_cents r < 2 ^ 52 \<longrightarrow>
                 (price_cents s \<le> price_cents r \<longrightarrow>
                    getDisplayPrice h m ModeBest v st =
                      Some \<lparr>price = fdiv (Num (of_int (price_cents s))) (Num 100), isSale = True,
                            cell_created_at = created_at s\<rparr>)
               \<and> (price_cents r < price_cents s \<longrightarrow>
                    getDisplayPrice h m ModeBest v st =
                      Some \<lparr>price = fdiv (Num (of_int (price_cents r))) (Num 100), isSale = False,
                            cell_created_at = created_at r\<rparr>)))
         \<and> (\<forall>s. regular slot = None \<and> sale slot = Some s \<and> isSaleStillValid h (Some s) \<longrightarrow>
              getDisplayPrice h m ModeBest v st =
                Some \<lparr>price = fdiv (Num (of_int (price_cents s))) (Num 100), isSale = True,
                      cell_created_at = created_at s\<rparr>)
         \<and> (\<forall>r. regular slot = Some r \<and> \<not> isSaleStillValid h (sale slot) \<longrightarrow>
              getDisplayPrice h m ModeBest v st =
                Some \<lparr>price = fdiv (Num (of_int (price_cents r))) (Num 100), isSale = False,
                      cell_created_at = created_at r\<rparr>)
         \<and> (regular slot = None \<and> \<not> isSaleStillValid h (sale slot) \<longrightarrow>
              getDisplayPrice h m ModeBest v st = None)"
proof -
  have d: "fdiv (Num (of_int c)) (Num 100) = dollars c" for c
    by (simp add: dollars_def)
  have both: "getDisplayPrice h m ModeBest v st =
      (if js_le (dollars (price_cents s)) (dollars (price_cents r))
       then Some \<lparr>price = dollars (price_cents s), isSale = True, cell_created_at = created_at s\<rparr>
       else Some \<lparr>price = dollars (price_cents r), isSale = False, cell_created_at = created_at r\<rparr>)"
    if "regular slot = Some r" "sale slot = Some s" "isSaleStillValid h (Some s)" for r s
    using assms that by (simp add: getDisplayPrice_def Let_def sale_cell_def regular_cell_def)
  have rest: "(\<forall>s. regular slot = None \<and> sale slot = Some s \<and> isSaleStillValid h (Some s) \<longrightarrow>
              getDisplayPrice h m ModeBest v st =
                Some \<lparr>price = dollars (price_cents s), isSale = True, cell_created_at = created_at s\<rparr>)
         \<and> (\<forall>r. regular slot = Some r \<and> \<not> isSaleStillValid h (sale slot) \<longrightarrow>
              getDisplayPrice h m ModeBest v st =
                Some \<lparr>price = dollars (price_cents r), isSale = False, cell_created_at = created_at r\<rparr>)
         \<and> (regular slot = None \<and> \<not> isSaleStillValid h (sale slot) \<longrightarrow>
              getDisplayPrice h m ModeBest v st = None)"
    using assms
    by (auto simp: getDisplayPrice_def Let_def sale_cell_def regular_cell_def isSaleStillValid_def
             split: option.splits)
  show ?thesis
    unfolding d
    using both rest by (auto simp: dollars_le_iff js_le_refl dollars_not_NaN)
qed

theorem best_mode_selection_witness:
  "getDisplayPrice (demo_host 1710070000000) (latest (pair_feed 1000 1000)) ModeBest ''v'' ''A'' =
     Some \<lparr>price = Num 10, isSale = True, cell_created_at = ''t3''\<rparr>
   \<and> getDisplayPrice (demo_host 1710070000000) (latest (pair_feed 1000 900)) ModeBest ''v'' ''A'' =
     Some \<lparr>price = Num 9, isSale = True, cell_created_at = ''t3''\<rparr>
   \<and> getDisplayPrice (demo_host 1710070000000) (latest (pair_feed 1000 1100)) ModeBest ''v'' ''A'' =
     Some \<lparr>price = Num 10, isSale = False, cell_created_at = ''t4''\<rparr>
   \<and> getDisplayPrice (demo_host 1710120000000) (latest (pair_feed 1000 900)) ModeBest ''v'' ''A'' =
     Some \<lparr>price = Num 10, isSale = False, cell_created_at = ''t4''\<rparr>"
  using best_mode_selection[OF pair_lookup[of 1000 1000], where h = "demo_host 1710070000000"]
        best_mode_selection[OF pair_lookup[of 1000 900], where h = "demo_host 1710070000000"]
        best_mode_selection[OF pair_lookup[of 1000 1100], where h = "demo_host 1710070000000"]
        best_mode_selection[OF pair_lookup[of 1000 900], where h = "demo_host 1710120000000"]
        pair_sale_active pair_sale_expired
  by (simp add: demo_sub_def fl_9 fl_10 fl_11)


text \<open>
  Claim C4 (mode independence). In mode \<^verbatim>\<open>regular\<close> the answer is the price
  \<^verbatim>\<open>price_cents / 100\<close> and the time stamp of the latest regular submission for the pair,
  with \<open>isSale\<close> false, when there is one, and empty otherwise, whatever sale there
  is. In mode \<^verbatim>\<open>sale\<close> the answer is the price and the time stamp of the latest sale
  submission, with \<open>isSale\<close> true, when that sale is still valid, and empty otherwise,
  whatever regular price there is. The price of \<open>n\<close> cents, \<open>0 < n < 2 ^ 52\<close>, is a
  finite number less than half a cent away from \<open>n / 100\<close>.
\<close>

theorem mode_independence:
  "getDisplayPrice h (latest feed) ModeRegular v st =
     (case first_of v st Regular feed of
        None \<Rightarrow> None
      | Some r \<Rightarrow> Some \<lparr>price = fdiv (Num (of_int (price_cents r))) (Num 100), isSale = False,
                         cell_created_at = created_at r\<rparr>)
   \<and> getDisplayPrice h (latest feed) ModeSale v st =
     (case first_of v st Sale feed of
        None \<Rightarrow> None
      | Some s \<Rightarrow> (if isSaleStillValid h (Some s)
                   then Some \<lparr>price = fdiv (Num (of_int (price_cents s))) (Num 100), isSale = True,
                              cell_created_at = created_at s\<rparr>
                   else None))
   \<and> (\<forall>c. getDisplayPrice h m ModeRegular v st = Some c \<longrightarrow>
          \<not> isSale c \<and>
          (\<exists>slot r. lookup_slot m v st = Some slot \<and> regular slot = Some r \<and>
             c = \<lparr>price = fdiv (Num (of_int (price_cents r))) (Num 100), isSale = False,
                   cell_created_at = created_at r\<rparr>))
   \<and> (\<forall>c. getDisplayPrice h m ModeSale v st = Some c \<longrightarrow>
          isSale c \<and>
          (\<exists>slot s. lookup_slot m v st = Some slot \<and> sale slot = Some s \<and> isSaleStillValid h (Some s) \<and>
             c = \<lparr>price = fdiv (Num (of_int (price_cents s))) (Num 100), isSale = True,
                   cell_created_at = created_at s\<rparr>))
   \<and> (\<forall>n. 0 < n \<and> n < 2 ^ 52 \<longrightarrow>
          (\<exists>p. fdiv (Num (of_int n)) (Num 100) = Num p \<and> \<bar>p - of_int n / 100\<bar> < 1 / 200))"
proof -
  have none: "\<forall>x\<in>set feed. \<not> for_pair v st x \<Longrightarrow> first_of v st t feed = None" for t
    by (rule first_of_None)
  have d: "fdiv (Num (of_int c)) (Num 100) = dollars c" for c
    by (simp add: dollars_def)
  have acc: "\<forall>n. 0 < n \<and> n < 2 ^ 52 \<longrightarrow>
          (\<exists>p. dollars n = Num p \<and> \<bar>p - of_int n / 100\<bar> < 1 / 200)"
    using dollars_error by blast
  show ?thesis
    unfolding d
    using acc
    by (auto simp: getDisplayPrice_def lookup_latest Let_def none sale_cell_def regular_cell_def
             split: option.splits)
qed

theorem mode_independence_witness:
  "getDisplayPrice (demo_host 1710070000000) (latest (pair_feed 1000 900)) ModeRegular ''v'' ''A'' =
     Some \<lparr>price = Num 10, isSale = False, cell_created_at = ''t4''\<rparr>
   \<and> getDisplayPrice (demo_host 1710070000000) (latest (pair_feed 1000 900)) ModeSale ''v'' ''A'' =
     Some \<lparr>price = Num 9, isSale = True, cell_created_at = ''t3''\<rparr>
   \<and> getDisplayPrice (demo_host 1710120000000) (latest (pair_feed 1000 900)) ModeSale ''v'' ''A'' = None
   \<and> getDisplayPrice (demo_host 1710070000000)
        (latest [demo_sub ''A'' ''v'' 900 Sale (Some ''2024-03-10'') ''t3'']) ModeRegular ''v'' ''A'' = None"
  using mode_independence[of "demo_host 1710070000000" "pair_feed 1000 900" "''v''" "''A''"]
        mode_independence[of "demo_host 1710120000000" "pair_feed 1000 900" "''v''" "''A''"]
        mode_independence[of "demo_host 1710070000000"
           "[demo_sub ''A'' ''v'' 900 Sale (Some ''2024-03-10'') ''t3'']" "''v''" "''A''"]
        pair_sale_active pair_sale_expired
  by (simp add: first_of_def for_pair_def pair_feed_def demo_sub_def fl_9 fl_10)






section \<open>Ranking a row: the cheapest store and the savings\<close>

subsection \<open>The priced stores and their sorted arrangement\<close>

lemma collect_vals_filter:
  "collect_vals f ss =
     map (\<lambda>s. \<lparr>storeId = st_id s, val_price = price (the (f (st_id s)))\<rparr>)
         (filter (\<lambda>s. f (st_id s) \<noteq> None) ss)"
  by (induction ss) (auto split: option.splits)

lemma collect_vals_append:
  "collect_vals f (xs @ ys) = collect_vals f xs @ collect_vals f ys"
  by (induction xs) (auto split: option.splits)

lemma collect_vals_set:
  "x \<in> set (collect_vals f ss) \<Longrightarrow> \<exists>s\<in>set ss. \<exists>c. f (st_id s) = Some c \<and> val_price x = price c"
  by (induction ss) (auto split: option.splits)

lemma collect_vals_range:
  "x \<in> set (collect_vals (getDisplayPrice h m mode v) stores) \<Longrightarrow> val_price x \<in> range fl"
proof (induction stores)
  case Nil
  then show ?case by simp
next
  case (Cons s stores)
  then show ?case
    using getDisplayPrice_dollars[of h m mode v "st_id s"] dollars_range
    by (auto split: option.splits)
qed

lemma collect_vals_latest_cents:
  "x \<in> set (collect_vals (getDisplayPrice h (latest feed) mode v) stores) \<Longrightarrow>
     \<exists>y\<in>set feed. val_price x = dollars (price_cents y)"
proof (induction stores)
  case Nil
  then show ?case by simp
next
  case (Cons s stores)
  show ?case
  proof (cases "getDisplayPrice h (latest feed) mode v (st_id s)")
    case None
    with Cons show ?thesis by simp
  next
    case (Some c)
    from getDisplayPrice_latest_cents[OF Some] Cons Some show ?thesis by auto
  qed
qed

lemma length_insert_by: "length (insert_by cmp x ys) = Suc (length ys)"
  by (induction ys) simp_all

lemma set_insert_by: "set (insert_by cmp x ys) = insert x (set ys)"
  by (induction ys) auto

lemma mset_insert_by: "mset (insert_by cmp x ys) = add_mset x (mset ys)"
  by (induction ys) auto

lemma Array_sort_Nil: "Array_sort cmp [] = []"
  by (simp add: Array_sort_def)

lemma Array_sort_single: "Array_sort cmp [x] = [x]"
  by (simp add: Array_sort_def)

lemma Array_sort_Cons: "Array_sort cmp (x # xs) = insert_by cmp x (Array_sort cmp xs)"
  by (simp add: Array_sort_def)

lemma length_Array_sort: "length (Array_sort cmp xs) = length xs"
  by (induction xs) (simp_all add: Array_sort_def length_insert_by)

lemma Array_sort_eq_Nil: "Array_sort cmp xs = [] \<longleftrightarrow> xs = []"
  using length_Array_sort[of cmp xs] by (metis length_0_conv)

lemma set_Array_sort: "set (Array_sort cmp xs) = set xs"
  by (induction xs) (simp_all add: Array_sort_Nil Array_sort_Cons set_insert_by)

lemma mset_Array_sort: "mset (Array_sort cmp xs) = mset xs"
  by (induction xs) (simp_all add: Array_sort_Nil Array_sort_Cons mset_insert_by)

lemma Array_sort_hd:
  assumes "\<forall>y\<in>set post. \<not> is_pos (cmp x y)" "\<forall>y\<in>set pre. is_pos (cmp y x)"
  shows "\<exists>zs. Array_sort cmp (pre @ x # post) = x # zs"
  using assms(2)
proof (induction pre)
  case Nil
  show ?case
  proof (cases "Array_sort cmp post")
    case Nil
    then show ?thesis by (simp add: Array_sort_Cons)
  next
    case (Cons y ys)
    then have "y \<in> set post" using set_Array_sort[of cmp post] by auto
    with assms(1) have "\<not> is_pos (cmp x y)" by simp
    with Cons show ?thesis by (simp add: Array_sort_Cons)
  qed
next
  case (Cons p pre)
  then obtain zs where "Array_sort cmp (pre @ x # post) = x # zs" by auto
  moreover from Cons.prems have "is_pos (cmp p x)" by simp
  ultimately show ?case by (simp add: Array_sort_Cons)
qed

lemma sorted_insert_by:
  assumes "sorted_wrt (\<lambda>a b. js_le (val_price a) (val_price b)) ys"
    and "val_price x \<in> range fl" "\<forall>y\<in>set ys. val_price y \<in> range fl"
  shows "sorted_wrt (\<lambda>a b. js_le (val_price a) (val_price b)) (insert_by by_price x ys)"
  using assms
proof (induction ys)
  case Nil
  then show ?case by simp
next
  case (Cons y ys)
  have xn: "val_price x \<noteq> NaN" and yn: "val_price y \<noteq> NaN"
    using Cons.prems(2,3) by (simp_all add: range_fl_not_NaN)
  show ?case
  proof (cases "is_pos (by_price x y)")
    case True
    with Cons.prems have "\<not> js_le (val_price x) (val_price y)"
      by (simp add: by_price_pos_iff)
    with js_le_total[OF xn yn] have "js_le (val_price y) (val_price x)" by simp
    with True Cons show ?thesis by (auto simp: set_insert_by)
  next
    case False
    with Cons.prems have xy: "js_le (val_price x) (val_price y)"
      by (simp add: by_price_pos_iff)
    with Cons.prems(1) have "\<forall>z\<in>set ys. js_le (val_price x) (val_price z)"
      by (auto intro: js_le_trans)
    with False xy Cons.prems(1) show ?thesis by simp
  qed
qed

lemma sorted_Array_sort:
  assumes "\<forall>y\<in>set xs. val_price y \<in> range fl"
  shows "sorted_wrt (\<lambda>a b. js_le (val_price a) (val_price b)) (Array_sort by_price xs)"
  using assms
  by (induction xs) (simp_all add: Array_sort_Nil Array_sort_Cons sorted_insert_by set_Array_sort)

lemma filter_insert_by:
  assumes "val_price x \<in> range fl" "\<forall>y\<in>set ys. val_price y \<in> range fl"
  shows "filter (\<lambda>z. val_price z = p) (insert_by by_price x ys) =
           (if val_price x = p then x # filter (\<lambda>z. val_price z = p) ys
            else filter (\<lambda>z. val_price z = p) ys)"
  using assms(2)
proof (induction ys)
  case Nil
  then show ?case by simp
next
  case (Cons y ys)
  show ?case
  proof (cases "is_pos (by_price x y)")
    case True
    with assms(1) Cons.prems have "\<not> js_le (val_price x) (val_price y)"
      by (simp add: by_price_pos_iff)
    moreover have "js_le (val_price x) (val_price x)"
      using assms(1) by (simp add: js_le_refl range_fl_not_NaN)
    ultimately have "val_price y \<noteq> val_price x" by auto
    with True Cons show ?thesis by auto
  next
    case False
    then show ?thesis by simp
  qed
qed

lemma stable_Array_sort:
  assumes "\<forall>y\<in>set xs. val_price y \<in> range fl"
  shows "filter (\<lambda>z. val_price z = p) (Array_sort by_price xs) = filter (\<lambda>z. val_price z = p) xs"
  using assms
  by (induction xs) (simp_all add: Array_sort_Nil Array_sort_Cons filter_insert_by set_Array_sort)

lemma hasAnyPrice_loop_iff: "hasAnyPrice_loop f ss \<longleftrightarrow> collect_vals f ss \<noteq> []"
  by (induction ss) (auto split: option.splits)

lemma demo_cell_A:
  "getDisplayPrice (demo_host 1710070000000) (latest demo_feed) ModeBest ''v'' ''A'' \<noteq> None"
  using demo_sale_active
  by (simp add: getDisplayPrice_def demo_lookup Let_def)

lemma demo_cell_B:
  "getDisplayPrice h (latest demo_feed) mode v ''B'' = None"
  by (simp add: getDisplayPrice_def lookup_latest for_pair_def demo_feed_def demo_sub_def)

subsection \<open>No price, one price\<close>

text \<open>
  Claim C7 (ranking, degenerate cases). When no store has a displayed price the result
  is \<^verbatim>\<open>{ cheapestStoreId: null, savePct: null }\<close>; when exactly one store \<open>s\<close> of the
  list has one, the result names \<open>s\<close> as cheapest and \<open>savePct\<close> is \<^verbatim>\<open>null\<close>.
\<close>

theorem ranking_degenerate:
  "((\<forall>s\<in>set stores. getDisplayPrice h m mode v (st_id s) = None) \<longrightarrow>
      getCheapestInfo h m mode stores v = \<lparr>cheapestStoreId = None, savePct = None\<rparr>)
   \<and> (filter (\<lambda>s. getDisplayPrice h m mode v (st_id s) \<noteq> None) stores = [s] \<longrightarrow>
      getCheapestInfo h m mode stores v = \<lparr>cheapestStoreId = Some (st_id s), savePct = None\<rparr>)"
proof (intro conjI impI)
  assume "\<forall>s\<in>set stores. getDisplayPrice h m mode v (st_id s) = None"
  then have "filter (\<lambda>s. getDisplayPrice h m mode v (st_id s) \<noteq> None) stores = []"
    by (simp add: filter_empty_conv)
  then show "getCheapestInfo h m mode stores v = \<lparr>cheapestStoreId = None, savePct = None\<rparr>"
    by (simp add: getCheapestInfo_def collect_vals_filter Array_sort_Nil)
next
  assume "filter (\<lambda>s. getDisplayPrice h m mode v (st_id s) \<noteq> None) stores = [s]"
  then show "getCheapestInfo h m mode stores v = \<lparr>cheapestStoreId = Some (st_id s), savePct = None\<rparr>"
    by (simp add: getCheapestInfo_def collect_vals_filter Array_sort_single)
qed

theorem ranking_degenerate_witness:
  "getCheapestInfo (demo_host 1710070000000) (latest demo_feed) ModeBest demo_stores ''v'' =
     \<lparr>cheapestStoreId = Some ''A'', savePct = None\<rparr>
   \<and> getCheapestInfo (demo_host 1710070000000) (latest demo_feed) ModeBest [] ''v'' =
     \<lparr>cheapestStoreId = None, savePct = None\<rparr>"
  using ranking_degenerate[of demo_stores "demo_host 1710070000000" "latest demo_feed" ModeBest "''v''"
           "\<lparr>st_id = ''A'', st_name = ''Store A'', sort_order = 1\<rparr>"]
        ranking_degenerate[of "[]" "demo_host 1710070000000" "latest demo_feed" ModeBest "''v''"]
        demo_cell_A demo_cell_B
  by (simp add: demo_stores_def)

text \<open>
  Claim C10 (the two row views agree). \<^verbatim>\<open>hasAnyPrice\<close> holds for a variant exactly when
  \<^verbatim>\<open>getCheapestInfo\<close> names a cheapest store for it, for the same stores, mode, index
  and host.
\<close>

theorem hasAnyPrice_iff_cheapest:
  "hasAnyPrice h m mode stores v \<longleftrightarrow> cheapestStoreId (getCheapestInfo h m mode stores v) \<noteq> None"
proof -
  let ?vals = "collect_vals (getDisplayPrice h m mode v) stores"
  have "cheapestStoreId (getCheapestInfo h m mode stores v) \<noteq> None \<longleftrightarrow> Array_sort by_price ?vals \<noteq> []"
    by (simp add: getCheapestInfo_def split: list.splits)
  then show ?thesis
    by (simp add: hasAnyPrice_def hasAnyPrice_loop_iff Array_sort_eq_Nil)
qed

subsection \<open>Ties go to the earlier store\<close>

lemma cheapest_first_minimal:
  assumes "stores = pre @ s # post"
    and "getDisplayPrice h m mode v (st_id s) = Some c"
    and "\<forall>t\<in>set stores. \<forall>c'. getDisplayPrice h m mode v (st_id t) = Some c' \<longrightarrow>
           js_le (price c) (price c')"
    and "\<forall>t\<in>set pre. \<forall>c'. getDisplayPrice h m mode v (st_id t) = Some c' \<longrightarrow>
           price c' \<noteq> price c"
  shows "cheapestStoreId (getCheapestInfo h m mode stores v) = Some (st_id s)"
proof -
  let ?f = "getDisplayPrice h m mode v"
  let ?x = "\<lparr>storeId = st_id s, val_price = price c\<rparr>"
  have vals: "collect_vals ?f stores = collect_vals ?f pre @ ?x # collect_vals ?f post"
    using assms(1,2) by (simp add: collect_vals_append)
  have xr: "val_price ?x \<in> range fl"
    using getDisplayPrice_dollars[OF assms(2)] dollars_range by auto
  have post: "\<forall>y\<in>set (collect_vals ?f post). \<not> is_pos (by_price ?x y)"
  proof
    fix y assume y: "y \<in> set (collect_vals ?f post)"
    then have yr: "val_price y \<in> range fl" by (rule collect_vals_range)
    from collect_vals_set[OF y] obtain t c' where t: "t \<in> set post" "?f (st_id t) = Some c'"
      "val_price y = price c'" by blast
    from t(1) assms(1) have "t \<in> set stores" by simp
    with assms(3) t(2,3) have "js_le (price c) (val_price y)" by simp
    with xr yr show "\<not> is_pos (by_price ?x y)" by (simp add: by_price_pos_iff)
  qed
  have pre: "\<forall>y\<in>set (collect_vals ?f pre). is_pos (by_price y ?x)"
  proof
    fix y assume y: "y \<in> set (collect_vals ?f pre)"
    then have yr: "val_price y \<in> range fl" by (rule collect_vals_range)
    from collect_vals_set[OF y] obtain t c' where t: "t \<in> set pre" "?f (st_id t) = Some c'"
      "val_price y = price c'" by blast
    from t(1) assms(1) have "t \<in> set stores" by simp
    with assms(3,4) t
    have "js_le (price c) (val_price y)" "val_price y \<noteq> price c" by simp_all
    then have "\<not> js_le (val_price y) (price c)" using js_le_antisym by blast
    with xr yr show "is_pos (by_price y ?x)" by (simp add: by_price_pos_iff)
  qed
  from Array_sort_hd[OF post pre] obtain zs
    where "Array_sort by_price (collect_vals ?f stores) = ?x # zs"
    unfolding vals by blast
  then show ?thesis
    by (cases zs) (simp_all add: getCheapestInfo_def)
qed

lemma by_price_dollars:
  "is_pos (by_price \<lparr>storeId = i, val_price = dollars a\<rparr> \<lparr>storeId = j, val_price = dollars b\<rparr>)
     \<longleftrightarrow> \<not> js_le (dollars a) (dollars b)"
  using by_price_pos_iff[of "\<lparr>storeId = i, val_price = dollars a\<rparr>" "\<lparr>storeId = j, val_price = dollars b\<rparr>"]
  by (simp add: dollars_range)

lemma tie_cells:
  "getDisplayPrice h (latest tie_feed) ModeRegular ''v'' ''A'' = Some (regular_cell (price_row ''A'' 1000))"
  "getDisplayPrice h (latest tie_feed) ModeRegular ''v'' ''B'' = Some (regular_cell (price_row ''B'' 800))"
  "getDisplayPrice h (latest tie_feed) ModeRegular ''v'' ''C'' = Some (regular_cell (price_row ''C'' 800))"
  by (simp_all add: getDisplayPrice_latest_regular first_of_def for_pair_def rank_defs)

text \<open>
  Claim C6 (tie-break). Let \<open>s\<close> be a store of the list whose displayed price is least
  among the priced stores, no store before it in the list having the same price. Then
  \<open>s\<close> is reported as cheapest: among stores tied at the least price the first in list
  order wins. More generally the sort is stable: the elements of any one price stand in
  the sorted array in the order the store list gave them.
\<close>

theorem cheapest_tie_break:
  assumes "stores = pre @ s # post"
    and "getDisplayPrice h m mode v (st_id s) = Some c"
    and "\<forall>t\<in>set stores. \<forall>c'. getDisplayPrice h m mode v (st_id t) = Some c' \<longrightarrow>
           js_le (price c) (price c')"
    and "\<forall>t\<in>set pre. \<forall>c'. getDisplayPrice h m mode v (st_id t) = Some c' \<longrightarrow>
           price c' \<noteq> price c"
  shows "cheapestStoreId (getCheapestInfo h m mode stores v) = Some (st_id s)
         \<and> (\<forall>p. filter (\<lambda>z. val_price z = p)
                   (Array_sort by_price (collect_vals (getDisplayPrice h m mode v) stores))
                 = filter (\<lambda>z. val_price z = p) (collect_vals (getDisplayPrice h m mode v) stores))"
proof
  show "cheapestStoreId (getCheapestInfo h m mode stores v) = Some (st_id s)"
    using assms by (rule cheapest_first_minimal)
next
  have "\<forall>y\<in>set (collect_vals (getDisplayPrice h m mode v) stores). val_price y \<in> range fl"
    using collect_vals_range by blast
  then show "\<forall>p. filter (\<lambda>z. val_price z = p)
                   (Array_sort by_price (collect_vals (getDisplayPrice h m mode v) stores))
                 = filter (\<lambda>z. val_price z = p) (collect_vals (getDisplayPrice h m mode v) stores)"
    by (simp add: stable_Array_sort)
qed

theorem cheapest_tie_break_witness:
  "cheapestStoreId (getCheapestInfo (demo_host 0) (latest tie_feed) ModeRegular three_stores ''v'')
     = Some ''B''"
proof -
  let ?A = "\<lparr>st_id = ''A'', st_name = ''Store A'', sort_order = 1\<rparr>"
  let ?B = "\<lparr>st_id = ''B'', st_name = ''Store B'', sort_order = 2\<rparr>"
  let ?C = "\<lparr>st_id = ''C'', st_name = ''Store C'', sort_order = 3\<rparr>"
  let ?f = "getDisplayPrice (demo_host 0) (latest tie_feed) ModeRegular ''v''"
  let ?c = "regular_cell (price_row ''B'' 800)"
  have p: "price ?c = Num 8" "price (regular_cell (price_row ''A'' 1000)) = Num 10"
    "price (regular_cell (price_row ''C'' 800)) = Num 8"
    by (simp_all add: regular_cell_def rank_defs dollars_800 dollars_1000)
  have 1: "three_stores = [?A] @ ?B # [?C]" by (simp add: three_stores_def)
  have 2: "?f (st_id ?B) = Some ?c" by (simp add: tie_cells)
  have 3: "\<forall>t\<in>set three_stores. \<forall>c'. ?f (st_id t) = Some c' \<longrightarrow> js_le (price ?c) (price c')"
    using p by (auto simp: three_stores_def tie_cells)
  have 4: "\<forall>t\<in>set [?A]. \<forall>c'. ?f (st_id t) = Some c' \<longrightarrow> price c' \<noteq> price ?c"
    using p by (auto simp: tie_cells)
  from cheapest_tie_break[OF 1 2 3 4] show ?thesis by simp
qed

subsection \<open>The savings percentage\<close>

lemma dollars_bounds:
  assumes "0 < c" "c < 2 ^ 53"
  shows "\<exists>p. dollars c = Num p \<and> pow2 (- 7) \<le> p \<and> p \<le> pow2 47"
proof -
  let ?x = "of_int c / 100 :: rat"
  have c1: "(1::rat) \<le> of_int c" using assms(1) by simp
  have "c \<le> 2 ^ 53" using assms(2) by simp
  then have c2: "(of_int c :: rat) \<le> of_int (2 ^ 53)" by (simp only: of_int_le_iff)
  have lo: "pow2 (- 7) \<le> ?x" using c1 by (simp add: pow2_eval)
  have hi: "?x \<le> pow2 47" using c2 by (simp add: pow2_eval)
  have "0 \<le> ?x" using c1 by simp
  from fl_le_pow2[OF this hi] obtain y where y: "fl ?x = Num y" "y \<le> pow2 47" by auto
  from fl_ge_pow2[OF lo] y(1) have "pow2 (- 7) \<le> y" by simp
  with y show ?thesis by (simp add: dollars_def)
qed

lemma save_pct_nonneg:
  assumes "pow2 (- 7) \<le> a" "a \<le> b" "b \<le> pow2 47"
  shows "\<exists>r. save_pct (Num a) (Num b) = Num r \<and> 0 \<le> r"
proof -
  have b0: "0 < b" using assms(1,2) pow2_pos[of "- 7"] by simp
  have blo: "pow2 (- 7) \<le> b" using assms(1,2) by simp
  have "0 \<le> b - a" "b - a \<le> pow2 47"
    using assms pow2_pos[of "- 7"] by simp_all
  from fl_le_pow2[OF this] obtain d where d: "fl (b - a) = Num d" "0 \<le> d" "d \<le> pow2 47" by auto
  have "d / b \<le> pow2 47 / pow2 (- 7)"
    using d(2,3) blo pow2_pos[of "- 7"] by (intro frac_le) simp_all
  also have "\<dots> = pow2 54" by (simp add: pow2_eval)
  finally have "d / b \<le> pow2 54" .
  moreover have "0 \<le> d / b" using d(2) b0 by simp
  ultimately obtain q where q: "fl (d / b) = Num q" "0 \<le> q" "q \<le> pow2 54"
    using fl_le_pow2[of "d / b" 54] by auto
  have "q * 100 \<le> pow2 54 * pow2 7" using q(2,3) by (intro mult_mono) (simp_all add: pow2_eval)
  also have "\<dots> = pow2 61" by (simp flip: pow2_add)
  finally have "q * 100 \<le> pow2 61" .
  moreover have "0 \<le> q * 100" using q(2) by simp
  ultimately obtain p where p: "fl (q * 100) = Num p" "0 \<le> p" "p \<le> pow2 61"
    using fl_le_pow2[of "q * 100" 61] by auto
  have "p * 10 \<le> pow2 61 * pow2 4" using p(2,3) by (intro mult_mono) (simp_all add: pow2_eval)
  also have "\<dots> = pow2 65" by (simp flip: pow2_add)
  finally have "p * 10 \<le> pow2 65" .
  moreover have "0 \<le> p * 10" using p(2) by simp
  ultimately obtain t where t: "fl (p * 10) = Num t" "0 \<le> t" "t \<le> pow2 65"
    using fl_le_pow2[of "p * 10" 65] by auto
  define k where "k = \<lfloor>t + 1 / 2\<rfloor>"
  have k0: "0 \<le> k" using t(2) by (simp add: k_def)
  have "of_int k \<le> t + 1 / 2" by (simp add: k_def)
  also have "\<dots> \<le> pow2 65 + pow2 65" using t(3) by (simp add: pow2_eval)
  also have "\<dots> = pow2 66" by (simp add: pow2_eval)
  finally have "(of_int k :: rat) / 10 \<le> pow2 66" using pow2_pos[of 66] by simp
  moreover have "0 \<le> (of_int k :: rat) / 10" using k0 by simp
  ultimately obtain r where r: "fl (of_int k / 10) = Num r" "0 \<le> r"
    using fl_le_pow2[of "of_int k / 10" 66] by auto
  have "save_pct (Num a) (Num b) = Num r"
    using b0 by (simp add: save_pct_def d(1) q(1) p(1) t(1) r(1) flip: k_def)
  with r(2) show ?thesis by simp
qed

lemma save_pct_tie:
  assumes "b \<noteq> 0"
  shows "save_pct (Num b) (Num b) = Num 0"
proof -
  have "\<lfloor>(1::rat) / 2\<rfloor> = 0" by (intro floor_unique) simp_all
  with assms show ?thesis by (simp add: save_pct_def fl_0)
qed

text \<open>
  The computation for the prices 8.00 and 10.00, step by step.
\<close>

lemma save_pct_8_10: "save_pct (Num 8) (Num 10) = Num 20"
proof -
  have 1: "fsub (Num 10) (Num 8) = Num 2"
    using fl_eval[of 1 "10 - 8" 4503599627370496] by (simp add: pow2_eval)
  have 2: "fdiv (Num 2) (Num 10) = Num (3602879701896397 / 18014398509481984)"
    using fl_eval[of "- 3" "2 / 10" 7205759403792794] by (simp add: pow2_eval)
  have 3: "fmul (Num (3602879701896397 / 18014398509481984)) (Num 100) = Num 20"
    using fl_eval[of 4 "3602879701896397 / 18014398509481984 * 100" 5629499534213120]
    by (simp add: pow2_eval)
  have 4: "fmul (Num 20) (Num 10) = Num 200"
    using fl_eval[of 7 "20 * 10" 7036874417766400] by (simp add: pow2_eval)
  have 5: "Math_round (Num 200) = Num 200"
    using Math_round_eval[of 200 200] by simp
  have 6: "fdiv (Num 200) (Num 10) = Num 20"
    using fl_eval[of 4 "200 / 10" 5629499534213120] by (simp add: pow2_eval)
  show ?thesis
    by (simp only: save_pct_def Let_def 1 2 3 4 5 6)
qed

lemma rank_vals:
  "collect_vals (getDisplayPrice h (latest rank_feed) ModeRegular ''v'') three_stores =
     [\<lparr>storeId = ''A'', val_price = dollars 800\<rparr>, \<lparr>storeId = ''B'', val_price = dollars 1000\<rparr>,
      \<lparr>storeId = ''C'', val_price = dollars 1200\<rparr>]"
  by (simp add: getDisplayPrice_latest_regular first_of_def for_pair_def regular_cell_def rank_defs)

lemma rank_result:
  "getCheapestInfo h (latest rank_feed) ModeRegular three_stores ''v'' =
     \<lparr>cheapestStoreId = Some ''A'', savePct = Some (Num 20)\<rparr>"
  by (simp add: getCheapestInfo_def rank_vals Array_sort_def by_price_dollars)
     (simp add: dollars_800 dollars_1000 dollars_1200 save_pct_8_10)

text \<open>
  The computation for the prices 9.75 and 20.00. Both are binary64 values, and the
  exact saving is 51.25 per cent; the quotient \<open>10.25 / 20\<close> is rounded down, so the
  product with 1000 falls just below 512.5.
\<close>

lemma fsub_20_975: "fsub (Num 20) (Num (39 / 4)) = Num (41 / 4)"
  using fl_eval[of 3 "20 - 39 / 4" 5770237022568448]
  by (simp add: pow2_eval)

lemma fdiv_1025_20: "fdiv (Num (41 / 4)) (Num 20) = Num (2308094809027379 / 4503599627370496)"
  using fl_eval[of "- 1" "(41 / 4) / 20" 4616189618054758]
  by (simp add: pow2_eval)

lemma fmul_half_100: "fmul (Num (2308094809027379 / 4503599627370496)) (Num 100) = Num (7212796278210559 / 140737488355328)"
  using fl_eval[of 5 "2308094809027379 / 4503599627370496 * 100" 7212796278210559]
  by (simp add: pow2_eval)

lemma fmul_half_10: "fmul (Num (7212796278210559 / 140737488355328)) (Num 10) = Num (4507997673881599 / 8796093022208)"
  using fl_eval[of 9 "7212796278210559 / 140737488355328 * 10" 4507997673881599]
  by (simp add: pow2_eval)

lemma Math_round_half: "Math_round (Num (4507997673881599 / 8796093022208)) = Num 512"
  using Math_round_eval[of 512 "4507997673881599 / 8796093022208"] by simp

lemma fdiv_512_10: "fdiv (Num 512) (Num 10) = Num (3602879701896397 / 70368744177664)"
  using fl_eval[of 5 "512 / 10" 7205759403792794]
  by (simp add: pow2_eval)

lemma save_pct_975_2000: "save_pct (dollars 975) (dollars 2000) = Num (3602879701896397 / 70368744177664)"
  by (simp only: save_pct_def Let_def dollars_975 dollars_2000 fsub_20_975 fdiv_1025_20 fmul_half_100 fmul_half_10 Math_round_half fdiv_512_10)

lemma fl_512: "fl (512 / 10) = Num (3602879701896397 / 70368744177664)"
  using fl_eval[of 5 "512 / 10" 7205759403792794]
  by (simp add: pow2_eval)

lemma fl_513: "fl (513 / 10) = Num (3609916576314163 / 70368744177664)"
  using fl_eval[of 5 "513 / 10" 7219833152628326]
  by (simp add: pow2_eval)

lemma spec_savePct_975_2000: "spec_savePct (39 / 4) 20 = 513 / 10"
proof -
  have "\<lfloor>(1025 :: rat) / 2 + 1 / 2\<rfloor> = 513" by (intro floor_unique) simp_all
  then show ?thesis by (simp add: spec_savePct_def round1_half_away_def)
qed

lemma half_vals:
  "collect_vals (getDisplayPrice h (latest half_feed) ModeRegular ''v'') demo_stores =
     [\<lparr>storeId = ''A'', val_price = dollars 975\<rparr>, \<lparr>storeId = ''B'', val_price = dollars 2000\<rparr>]"
  by (simp add: getDisplayPrice_latest_regular first_of_def for_pair_def regular_cell_def rank_defs)

lemma half_result:
  "getCheapestInfo h (latest half_feed) ModeRegular demo_stores ''v'' =
     \<lparr>cheapestStoreId = Some ''A'', savePct = Some (Num (3602879701896397 / 70368744177664))\<rparr>"
  by (simp add: getCheapestInfo_def half_vals Array_sort_def by_price_dollars)
     (simp add: dollars_975 dollars_2000 save_pct_975_2000[simplified dollars_975 dollars_2000])

text \<open>
  Claim C5 (savings percentage), as the code has it. Let every price of the feed be a
  positive number of cents below \<open>2 ^ 53\<close>, and let two or more stores have a displayed
  price. Then the sorted array starts with \<open>c\<close> and \<open>s\<close>, of finite prices
  \<open>0 < pc \<le> ps\<close>, every other priced store costing at least \<open>ps\<close>; the result names
  the store of \<open>c\<close> as cheapest, and \<open>savePct\<close> is
  \<^verbatim>\<open>Math.round(((ps - pc) / ps) * 100 * 10) / 10\<close> with every operation rounded to
  binary64. It is a finite number, never negative, and \<open>0\<close> when \<open>pc = ps\<close>.
\<close>

theorem savings_percentage:
  assumes "\<forall>x\<in>set feed. 0 < price_cents x \<and> price_cents x < 2 ^ 53"
    and "2 \<le> length (filter (\<lambda>t. getDisplayPrice h (latest feed) mode v (st_id t) \<noteq> None) stores)"
  shows "\<exists>c s rest pc ps r.
           mset (c # s # rest) = mset (collect_vals (getDisplayPrice h (latest feed) mode v) stores)
         \<and> val_price c = Num pc \<and> val_price s = Num ps \<and> 0 < pc \<and> pc \<le> ps
         \<and> (\<forall>x\<in>set rest. js_le (Num ps) (val_price x))
         \<and> getCheapestInfo h (latest feed) mode stores v =
             \<lparr>cheapestStoreId = Some (storeId c),
              savePct = Some (fdiv (Math_round (fmul (fmul (fdiv (fsub (Num ps) (Num pc)) (Num ps))
                                                         (Num 100)) (Num 10))) (Num 10))\<rparr>
         \<and> savePct (getCheapestInfo h (latest feed) mode stores v) = Some (Num r)
         \<and> 0 \<le> r \<and> (pc = ps \<longrightarrow> r = 0)"
proof -
  let ?vals = "collect_vals (getDisplayPrice h (latest feed) mode v) stores"
  let ?sorted = "Array_sort by_price ?vals"
  have "2 \<le> length ?sorted"
    using assms(2) by (simp add: length_Array_sort collect_vals_filter)
  then obtain c s rest where sorted: "?sorted = c # s # rest"
    by (cases ?sorted; cases "tl ?sorted") auto
  have ms: "mset (c # s # rest) = mset ?vals"
    using mset_Array_sort[of by_price ?vals] by (simp only: sorted)
  have rng: "\<forall>y\<in>set ?vals. val_price y \<in> range fl"
    using collect_vals_range by blast
  from sorted_Array_sort[OF rng]
  have le: "js_le (val_price c) (val_price s)" "\<forall>x\<in>set rest. js_le (val_price s) (val_price x)"
    by (simp_all add: sorted)
  have "set ?vals = set (c # s # rest)"
    using set_Array_sort[of by_price ?vals] by (simp only: sorted)
  then have mem: "c \<in> set ?vals" "s \<in> set ?vals"
    by simp_all
  from collect_vals_latest_cents[OF mem(1)] assms(1) dollars_bounds
  obtain pc where pc: "val_price c = Num pc" "pow2 (- 7) \<le> pc" "pc \<le> pow2 47"
    by metis
  from collect_vals_latest_cents[OF mem(2)] assms(1) dollars_bounds
  obtain ps where ps: "val_price s = Num ps" "pow2 (- 7) \<le> ps" "ps \<le> pow2 47"
    by metis
  from le(1) have cs: "pc \<le> ps" by (simp add: pc ps)
  have pc0: "0 < pc" using pc(2) pow2_pos[of "- 7"] by simp
  from save_pct_nonneg[OF pc(2) cs ps(3)]
  obtain r where r: "save_pct (Num pc) (Num ps) = Num r" "0 \<le> r" by blast
  have res: "getCheapestInfo h (latest feed) mode stores v =
       \<lparr>cheapestStoreId = Some (storeId c), savePct = Some (save_pct (Num pc) (Num ps))\<rparr>"
    by (simp add: getCheapestInfo_def sorted pc ps)
  have tie: "pc = ps \<longrightarrow> r = 0"
    using r(1) pc0 save_pct_tie[of ps] by auto
  show ?thesis
    apply (rule exI[of _ c], rule exI[of _ s], rule exI[of _ rest])
    apply (rule exI[of _ pc], rule exI[of _ ps], rule exI[of _ r])
    using ms pc(1) ps(1) pc0 cs le(2) res r tie
    by (simp add: save_pct_def Let_def)
qed

theorem savings_percentage_witness:
  "2 \<le> length (filter (\<lambda>t. getDisplayPrice (demo_host 0) (latest rank_feed) ModeRegular ''v'' (st_id t) \<noteq> None) three_stores)
   \<and> (\<exists>r. savePct (getCheapestInfo (demo_host 0) (latest rank_feed) ModeRegular three_stores ''v'') = Some (Num r) \<and> 0 \<le> r)
   \<and> getCheapestInfo (demo_host 0) (latest rank_feed) ModeRegular three_stores ''v'' =
       \<lparr>cheapestStoreId = Some ''A'', savePct = Some (Num 20)\<rparr>"
proof -
  have h1: "\<forall>x\<in>set rank_feed. 0 < price_cents x \<and> price_cents x < 2 ^ 53"
    by (simp add: rank_defs)
  have h2: "2 \<le> length (filter (\<lambda>t. getDisplayPrice (demo_host 0) (latest rank_feed) ModeRegular ''v'' (st_id t) \<noteq> None) three_stores)"
    by (simp add: getDisplayPrice_latest_regular first_of_def for_pair_def rank_defs)
  from savings_percentage[OF h1 h2]
  have "\<exists>r. savePct (getCheapestInfo (demo_host 0) (latest rank_feed) ModeRegular three_stores ''v'') = Some (Num r) \<and> 0 \<le> r"
    by blast
  with h2 rank_result show ?thesis by blast
qed

text \<open>
  Claim C5 as the specification states it fails: for stores at 9.75 and 20.00 the
  saving of 51.25 per cent, rounded to one decimal with a half going away from zero, is
  51.3, and the code returns the binary64 value of 51.2.
\<close>

theorem savings_percentage_counterexample:
  "getDisplayPrice (demo_host 0) (latest half_feed) ModeRegular ''v'' ''A''
     = Some \<lparr>price = Num (39 / 4), isSale = False, cell_created_at = ''t1''\<rparr>
   \<and> getDisplayPrice (demo_host 0) (latest half_feed) ModeRegular ''v'' ''B''
     = Some \<lparr>price = Num 20, isSale = False, cell_created_at = ''t1''\<rparr>
   \<and> spec_savePct (39 / 4) 20 = 513 / 10
   \<and> savePct (getCheapestInfo (demo_host 0) (latest half_feed) ModeRegular demo_stores ''v'')
     = Some (fl (512 / 10))
   \<and> fl (512 / 10) \<noteq> fl (513 / 10)
   \<and> fl (512 / 10) \<noteq> Num (513 / 10)"
proof (intro conjI)
  show "getDisplayPrice (demo_host 0) (latest half_feed) ModeRegular ''v'' ''A''
     = Some \<lparr>price = Num (39 / 4), isSale = False, cell_created_at = ''t1''\<rparr>"
    by (simp add: getDisplayPrice_latest_regular first_of_def for_pair_def regular_cell_def
          rank_defs dollars_975)
  show "getDisplayPrice (demo_host 0) (latest half_feed) ModeRegular ''v'' ''B''
     = Some \<lparr>price = Num 20, isSale = False, cell_created_at = ''t1''\<rparr>"
    by (simp add: getDisplayPrice_latest_regular first_of_def for_pair_def regular_cell_def
          rank_defs dollars_2000)
  show "spec_savePct (39 / 4) 20 = 513 / 10"
    by (rule spec_savePct_975_2000)
  show "savePct (getCheapestInfo (demo_host 0) (latest half_feed) ModeRegular demo_stores ''v'')
     = Some (fl (512 / 10))"
    unfolding half_result fl_512 by simp
  show "fl (512 / 10) \<noteq> fl (513 / 10)"
    unfolding fl_512 fl_513 by simp
  show "fl (512 / 10) \<noteq> Num (513 / 10)"
    unfolding fl_512 by simp
qed

section \<open>The search filter: substring match on the label\<close>

lemma str_includes_sublist: "str_includes s q \<longleftrightarrow> sublist q s"
  by (induction s) (simp_all add: sublist_Cons_right)

lemma dropWhile_all: "list_all P xs \<Longrightarrow> dropWhile P (xs @ ys) = dropWhile P ys"
  by (induction xs) simp_all

lemma dropWhile_stop: "ys \<noteq> [] \<Longrightarrow> \<not> P (hd ys) \<Longrightarrow> dropWhile P ys = ys"
  by (cases ys) simp_all

lemma trim_spaces: "list_all is_white_space q \<Longrightarrow> trim q = []"
proof -
  assume "list_all is_white_space q"
  then have "\<forall>c\<in>set q. is_white_space c" by (simp add: list_all_iff)
  then have "dropWhile is_white_space q = []" by (simp only: dropWhile_eq_Nil_conv)
  then have "trim q = rev (dropWhile is_white_space (rev []))" by (simp only: trim_def)
  then show ?thesis by simp
qed

lemma trim_core:
  assumes ws1: "list_all is_white_space ws1" and ws2: "list_all is_white_space ws2"
    and core: "core = [] \<or> \<not> is_white_space (hd core) \<and> \<not> is_white_space (last core)"
  shows "trim (ws1 @ core @ ws2) = core"
proof (cases "core = []")
  case True
  from ws1 ws2 have "list_all is_white_space (ws1 @ ws2)" by simp
  then show ?thesis using True by (simp add: trim_spaces)
next
  case False
  with core have h: "\<not> is_white_space (hd core)" and l: "\<not> is_white_space (last core)"
    by simp_all
  have "dropWhile is_white_space (ws1 @ core @ ws2) = dropWhile is_white_space (core @ ws2)"
    using ws1 by (rule dropWhile_all)
  also have "\<dots> = core @ ws2"
    using False h by (intro dropWhile_stop) simp_all
  finally have front: "dropWhile is_white_space (ws1 @ core @ ws2) = core @ ws2" .
  have "dropWhile is_white_space (rev (core @ ws2)) = dropWhile is_white_space (rev core)"
    using ws2 by (simp add: dropWhile_all)
  also have "\<dots> = rev core"
    using False l by (intro dropWhile_stop) (simp_all add: hd_rev)
  finally show ?thesis
    by (simp add: trim_def front)
qed

lemma trim_decompose:
  "\<exists>ws1 ws2. q = ws1 @ trim q @ ws2 \<and> list_all is_white_space ws1 \<and> list_all is_white_space ws2
      \<and> (trim q = [] \<or> \<not> is_white_space (hd (trim q)) \<and> \<not> is_white_space (last (trim q)))"
proof -
  let ?P = is_white_space
  let ?ws1 = "takeWhile ?P q"
  let ?r = "dropWhile ?P q"
  let ?ws2 = "rev (takeWhile ?P (rev ?r))"
  have t: "trim q = rev (dropWhile ?P (rev ?r))" by (simp add: trim_def)
  have "rev (rev ?r) = rev (takeWhile ?P (rev ?r) @ dropWhile ?P (rev ?r))"
    by (simp only: takeWhile_dropWhile_id)
  then have r: "?r = trim q @ ?ws2" by (simp only: rev_rev_ident rev_append t)
  have "q = ?ws1 @ ?r" by simp
  with r have q: "q = ?ws1 @ trim q @ ?ws2" by simp
  have a1: "list_all ?P ?ws1" by (simp add: list_all_iff) (metis set_takeWhileD)
  have a2: "list_all ?P ?ws2" by (simp add: list_all_iff) (metis set_takeWhileD)
  have e: "trim q = [] \<or> \<not> ?P (hd (trim q)) \<and> \<not> ?P (last (trim q))"
  proof (cases "trim q = []")
    case True then show ?thesis by simp
  next
    case False
    then have ne: "dropWhile ?P (rev ?r) \<noteq> []" by (simp add: t)
    then have l: "\<not> ?P (hd (dropWhile ?P (rev ?r)))" by (rule hd_dropWhile)
    have last: "last (trim q) = hd (dropWhile ?P (rev ?r))"
      using ne by (simp add: t last_rev)
    from False r have "?r \<noteq> []" by (metis Nil_is_append_conv)
    then have "\<not> ?P (hd ?r)" by (rule hd_dropWhile)
    moreover have "hd ?r = hd (trim q)" using False r by (metis hd_append2)
    ultimately show ?thesis using l last by simp
  qed
  from q a1 a2 e show ?thesis by blast
qed

text \<open>
  Claim C9 (search filter). The filter keeps exactly the variants for which the trimmed,
  lower-cased query is a substring of the lower-cased text
  \<^verbatim>\<open>brand product sizeValue sizeUnit flavour\<close> (size value and unit joined without a
  space, an absent part empty), in their order. The trimmed query is the query without
  the white space at its two ends: the query is white space, the trimmed query, white
  space, the trimmed query neither begins nor ends with white space, and it is the only
  such part of the query. White space is every code unit the language counts as white
  space or as a line terminator, the no-break space among them. A query of white space
  only keeps every variant (lower-casing the empty string gives the empty string), and so
  does the empty query.
\<close>

theorem search_filter:
  "filteredVariants toLowerCase toStr query variants =
     filter (\<lambda>v. sublist (toLowerCase (trim query))
                   (toLowerCase (brand_name v @ [0x20] @ product_name v @ [0x20]
                      @ (case size_value v of None \<Rightarrow> [] | Some n \<Rightarrow> toStr n)
                      @ (case size_unit v of None \<Rightarrow> [] | Some u \<Rightarrow> u)
                      @ [0x20]
                      @ (case flavour v of None \<Rightarrow> [] | Some f \<Rightarrow> f)))) variants
   \<and> (\<exists>ws1 ws2. query = ws1 @ trim query @ ws2
         \<and> list_all is_white_space ws1 \<and> list_all is_white_space ws2
         \<and> (trim query = [] \<or> \<not> is_white_space (hd (trim query)) \<and> \<not> is_white_space (last (trim query))))
   \<and> (\<forall>ws1 core ws2.
         query = ws1 @ core @ ws2 \<and> list_all is_white_space ws1 \<and> list_all is_white_space ws2
         \<and> (core = [] \<or> \<not> is_white_space (hd core) \<and> \<not> is_white_space (last core))
         \<longrightarrow> trim query = core)
   \<and> (list_all is_white_space query \<and> toLowerCase [] = []
         \<longrightarrow> filteredVariants toLowerCase toStr query variants = variants)"
proof (intro conjI allI impI)
  show "filteredVariants toLowerCase toStr query variants =
     filter (\<lambda>v. sublist (toLowerCase (trim query))
                   (toLowerCase (brand_name v @ [0x20] @ product_name v @ [0x20]
                      @ (case size_value v of None \<Rightarrow> [] | Some n \<Rightarrow> toStr n)
                      @ (case size_unit v of None \<Rightarrow> [] | Some u \<Rightarrow> u)
                      @ [0x20]
                      @ (case flavour v of None \<Rightarrow> [] | Some f \<Rightarrow> f)))) variants"
    by (simp add: filteredVariants_def Let_def str_includes_sublist label_def)
  show "\<exists>ws1 ws2. query = ws1 @ trim query @ ws2
         \<and> list_all is_white_space ws1 \<and> list_all is_white_space ws2
         \<and> (trim query = [] \<or> \<not> is_white_space (hd (trim query)) \<and> \<not> is_white_space (last (trim query)))"
    by (rule trim_decompose)
next
  fix ws1 core ws2
  assume "query = ws1 @ core @ ws2 \<and> list_all is_white_space ws1 \<and> list_all is_white_space ws2
         \<and> (core = [] \<or> \<not> is_white_space (hd core) \<and> \<not> is_white_space (last core))"
  then show "trim query = core" by (simp add: trim_core)
next
  assume "list_all is_white_space query \<and> toLowerCase [] = []"
  then show "filteredVariants toLowerCase toStr query variants = variants"
    by (simp add: filteredVariants_def trim_spaces)
qed

theorem search_filter_witness:
  "filteredVariants demo_lower demo_toStr (units ''grape'') [demo_variant, creme_variant] = [demo_variant]
   \<and> filteredVariants demo_lower demo_toStr (units ''  CONCORD  '') [demo_variant, creme_variant] = [demo_variant]
   \<and> filteredVariants demo_lower demo_toStr (units ''5l c'') [demo_variant, creme_variant] = [demo_variant]
   \<and> filteredVariants demo_lower demo_toStr (units ''apple'') [demo_variant, creme_variant] = []
   \<and> filteredVariants demo_lower demo_toStr (units ''CR'' @ [0xC8] @ units ''ME'') [demo_variant, creme_variant]
       = [creme_variant]
   \<and> filteredVariants demo_lower demo_toStr (units ''gefen  '') [demo_variant, creme_variant]
       = [creme_variant]
   \<and> filteredVariants demo_lower demo_toStr [0xA0, 0x20, 0x3000] [demo_variant, creme_variant]
       = [demo_variant, creme_variant]
   \<and> filteredVariants demo_lower demo_toStr [] [demo_variant, creme_variant]
       = [demo_variant, creme_variant]
   \<and> trim ([0x09, 0xA0] @ units ''Grape  Juice'' @ [0x2003, 0x0A]) = units ''Grape  Juice''"
proof -
  note defs = demo_lower_def trim_def is_white_space_def units_def demo_variant_def
    creme_variant_def demo_toStr_def sublist_Cons_right
  let ?vs = "[demo_variant, creme_variant]"
  have 1: "filteredVariants demo_lower demo_toStr (units ''grape'') ?vs = [demo_variant]"
    using search_filter[THEN conjunct1, of demo_lower demo_toStr "units ''grape''" ?vs]
    by (simp add: defs)
  have 2: "filteredVariants demo_lower demo_toStr (units ''  CONCORD  '') ?vs = [demo_variant]"
    using search_filter[THEN conjunct1, of demo_lower demo_toStr "units ''  CONCORD  ''" ?vs]
    by (simp add: defs)
  have 3: "filteredVariants demo_lower demo_toStr (units ''5l c'') ?vs = [demo_variant]"
    using search_filter[THEN conjunct1, of demo_lower demo_toStr "units ''5l c''" ?vs]
    by (simp add: defs)
  have 4: "filteredVariants demo_lower demo_toStr (units ''apple'') ?vs = []"
    using search_filter[THEN conjunct1, of demo_lower demo_toStr "units ''apple''" ?vs]
    by (simp add: defs)
  have 5: "filteredVariants demo_lower demo_toStr (units ''CR'' @ [0xC8] @ units ''ME'') ?vs
       = [creme_variant]"
    using search_filter[THEN conjunct1, of demo_lower demo_toStr "units ''CR'' @ [0xC8] @ units ''ME''" ?vs]
    by (simp add: defs)
  have 6: "filteredVariants demo_lower demo_toStr (units ''gefen  '') ?vs = [creme_variant]"
    using search_filter[THEN conjunct1, of demo_lower demo_toStr "units ''gefen  ''" ?vs]
    by (simp add: defs)
  have "list_all is_white_space [0xA0, 0x20, 0x3000] \<and> demo_lower [] = []"
    by (simp add: is_white_space_def demo_lower_def)
  with search_filter[of demo_lower demo_toStr "[0xA0, 0x20, 0x3000]" ?vs]
  have 7: "filteredVariants demo_lower demo_toStr [0xA0, 0x20, 0x3000] ?vs = ?vs"
    by blast
  have "list_all is_white_space [] \<and> demo_lower [] = []"
    by (simp add: demo_lower_def)
  with search_filter[of demo_lower demo_toStr "[]" ?vs]
  have 8: "filteredVariants demo_lower demo_toStr [] ?vs = ?vs"
    by blast
  let ?q = "[0x09, 0xA0] @ units ''Grape  Juice'' @ [0x2003, 0x0A]"
  from search_filter[of demo_lower demo_toStr ?q "[]"]
  have "\<forall>ws1 core ws2.
         ?q = ws1 @ core @ ws2 \<and> list_all is_white_space ws1 \<and> list_all is_white_space ws2
         \<and> (core = [] \<or> \<not> is_white_space (hd core) \<and> \<not> is_white_space (last core))
         \<longrightarrow> trim ?q = core"
    by (elim conjE)
  from this[rule_format, of "[0x09, 0xA0]" "units ''Grape  Juice''" "[0x2003, 0x0A]"]
  have 9: "trim ?q = units ''Grape  Juice''"
    by (simp add: is_white_space_def units_def)
  from 1 2 3 4 5 6 7 8 9 show ?thesis by blast
qed

end
